theory Spec2Isabelle
  imports Main "HOL-Library.Word"
begin

unbundle bit_operations_syntax

section \<open>The EEPROM outage log of ModemMonitor (EEPROMRecordClass.cpp)\<close>

text \<open>
  The class keeps a circular list of 8-byte outage records in the Arduino's on-board
  EEPROM. The model is a shallow embedding of \<^verbatim>\<open>EEPROMRecordClass.cpp\<close>:
  \<^item> the EEPROM is a list of bytes; \<^verbatim>\<open>EEPROM.length()\<close> is its length;
  \<^item> the object is a record holding the EEPROM, the cursor \<^verbatim>\<open>_modemRecordIndex\<close>
    and the staging block \<^verbatim>\<open>EEPROMBlock\<close>, passed through every method;
  \<^item> two ghost fields record what a method did to the device: \<open>updates\<close> is the sequence
    of \<^verbatim>\<open>EEPROM.update(address, value)\<close> calls, \<open>gets\<close> counts the
    \<^verbatim>\<open>EEPROM.get\<close> calls;
  \<^item> a C \<^verbatim>\<open>int\<close> is an \<open>int\<close>, the \<^verbatim>\<open>unsigned int\<close> cursor is a \<open>nat\<close>.
    On the target (an Arduino Uno: 16-bit \<^verbatim>\<open>int\<close>, 1024 bytes of EEPROM) no
    computation of the class leaves the range of its type as long as the EEPROM has at most
    32760 bytes, except the unsigned subtraction in
    \<^verbatim>\<open>getIndexOfPrevCompletedRecord\<close>, whose conversion back to \<^verbatim>\<open>int\<close> gives the
    mathematical difference;
  \<^item> every \<^verbatim>\<open>while\<close> and \<^verbatim>\<open>for\<close> loop is a recursive function with a
    termination proof; a \<^verbatim>\<open>return\<close> inside a loop is the \<open>Inl\<close> branch of its result.
\<close>

subsection \<open>Data (EEPROMRecordClass.h, ModemMonitor.h)\<close>

type_synonym uint8_t = "8 word"
type_synonym uint16_t = "16 word"
type_synonym uint32_t = "32 word"

definition MODEM_RECORD_COMPLETE :: uint8_t where
  "MODEM_RECORD_COMPLETE = 0x01"

definition MODEM_RECORD_IN_PROGRESS :: uint8_t where
  "MODEM_RECORD_IN_PROGRESS = 0x02"

definition MODEM_RECORD_UNUSED :: uint8_t where
  "MODEM_RECORD_UNUSED = 0xFF"

text \<open>\<^verbatim>\<open>struct modemRecord_t\<close>: the working record of the application.\<close>

record modemRecord_t =
  secsSince1900 :: uint32_t
  downMins :: uint16_t
  waitSecs :: uint16_t

text \<open>\<^verbatim>\<open>struct EEPROMRecord_t\<close>: one slot, byte by byte; \<^verbatim>\<open>sizeof\<close> is 8.\<close>

record EEPROMRecord_t =
  secsSince1900_4 :: uint8_t
  secsSince1900_3 :: uint8_t
  secsSince1900_2 :: uint8_t
  secsSince1900_1 :: uint8_t
  downMins2 :: uint8_t
  downMins1 :: uint8_t
  spare :: uint8_t
  flags :: uint8_t

definition sizeof_EEPROMRecord_t :: int where
  "sizeof_EEPROMRecord_t = 8"

declare sizeof_EEPROMRecord_t_def [simp]

record EEPROMRecordClass =
  eeprom :: "uint8_t list"
  modemRecordIndex :: nat
  EEPROMBlock :: EEPROMRecord_t
  updates :: "(nat \<times> uint8_t) list"
  gets :: nat

subsection \<open>The EEPROM library, as far as the class uses it\<close>

definition EEPROM_length :: "EEPROMRecordClass \<Rightarrow> int" where
  "EEPROM_length s = int (length (eeprom s))"

text \<open>
  \<^verbatim>\<open>EEPROM.get(a, flags)\<close> with a one-byte destination reads the byte at \<open>a\<close>. The
  library does no bounds check and the device's answer past the end is not part of this
  repository: the model answers \<open>MODEM_RECORD_UNUSED\<close> there. No method reads past the
  end when the length is a multiple of 8 and the cursor is the offset of a slot.
\<close>

definition EEPROM_byte :: "EEPROMRecordClass \<Rightarrow> int \<Rightarrow> uint8_t" where
  "EEPROM_byte s a =
     (if 0 \<le> a \<and> a < EEPROM_length s then eeprom s ! nat a else MODEM_RECORD_UNUSED)"

definition EEPROM_get :: "int \<Rightarrow> EEPROMRecordClass \<Rightarrow> uint8_t \<times> EEPROMRecordClass" where
  "EEPROM_get a s = (EEPROM_byte s a, s\<lparr>gets := gets s + 1\<rparr>)"

text \<open>
  \<^verbatim>\<open>EEPROM.update(a, v)\<close> leaves the byte at \<open>a\<close> holding \<open>v\<close> (the library skips the
  physical write when the byte already holds \<open>v\<close>). A call past the end changes nothing
  in the model.
\<close>

definition EEPROM_update :: "nat \<Rightarrow> uint8_t \<Rightarrow> EEPROMRecordClass \<Rightarrow> EEPROMRecordClass" where
  "EEPROM_update a v s = s\<lparr>eeprom := (eeprom s)[a := v], updates := updates s @ [(a, v)]\<rparr>"

subsection \<open>The codec\<close>

text \<open>
  \<^verbatim>\<open>convertToEEPROMBlock\<close> and \<^verbatim>\<open>convertFromEEPROMBlock\<close> return the constant 0,
  which the model leaves out.
\<close>

definition convertToEEPROMBlock :: "modemRecord_t \<Rightarrow> EEPROMRecordClass \<Rightarrow> EEPROMRecordClass" where
  "convertToEEPROMBlock src s =
     s\<lparr>EEPROMBlock := (EEPROMBlock s)
        \<lparr>secsSince1900_4 := ucast (drop_bit 24 (secsSince1900 src) AND 0xff),
         secsSince1900_3 := ucast (drop_bit 16 (secsSince1900 src) AND 0xff),
         secsSince1900_2 := ucast (drop_bit 8 (secsSince1900 src) AND 0xff),
         secsSince1900_1 := ucast (secsSince1900 src AND 0xff),
         downMins2 := ucast (drop_bit 8 (downMins src) AND 0xff),
         downMins1 := ucast (downMins src AND 0xff),
         flags := MODEM_RECORD_COMPLETE\<rparr>\<rparr>"

definition convertFromEEPROMBlock :: "modemRecord_t \<Rightarrow> EEPROMRecordClass \<Rightarrow> modemRecord_t" where
  "convertFromEEPROMBlock dst s =
     dst\<lparr>secsSince1900 :=
           push_bit 24 (ucast (secsSince1900_4 (EEPROMBlock s)) :: uint32_t) +
           push_bit 16 (ucast (secsSince1900_3 (EEPROMBlock s)) :: uint32_t) +
           push_bit 8 (ucast (secsSince1900_2 (EEPROMBlock s)) :: uint32_t) +
           (ucast (secsSince1900_1 (EEPROMBlock s)) :: uint32_t),
         downMins :=
           push_bit 8 (ucast (downMins2 (EEPROMBlock s)) :: uint16_t) +
           (ucast (downMins1 (EEPROMBlock s)) :: uint16_t)\<rparr>"

subsection \<open>Reading a slot into the staging block\<close>

text \<open>\<^verbatim>\<open>EEPROM.get(ind, EEPROMBlock)\<close> copies the eight bytes from \<open>ind\<close> on.\<close>

definition getDataFromIndex :: "int \<Rightarrow> EEPROMRecordClass \<Rightarrow> EEPROMRecordClass" where
  "getDataFromIndex ind s =
     s\<lparr>EEPROMBlock :=
         \<lparr>secsSince1900_4 = EEPROM_byte s ind,
          secsSince1900_3 = EEPROM_byte s (ind + 1),
          secsSince1900_2 = EEPROM_byte s (ind + 2),
          secsSince1900_1 = EEPROM_byte s (ind + 3),
          downMins2 = EEPROM_byte s (ind + 4),
          downMins1 = EEPROM_byte s (ind + 5),
          spare = EEPROM_byte s (ind + 6),
          flags = EEPROM_byte s (ind + 7)\<rparr>,
       gets := gets s + 1\<rparr>"

definition getDataFromIndex_cursor :: "EEPROMRecordClass \<Rightarrow> EEPROMRecordClass" where
  "getDataFromIndex_cursor s = getDataFromIndex (int (modemRecordIndex s)) s"

subsection \<open>One step forward, one step back\<close>

definition getIndexOfNextCompletedRecord :: "EEPROMRecordClass \<Rightarrow> int \<times> EEPROMRecordClass" where
  "getIndexOfNextCompletedRecord s =
     (let i = int (modemRecordIndex s) + sizeof_EEPROMRecord_t;
          i = (if i \<ge> EEPROM_length s then 0 else i);
          (flg, s) = EEPROM_get (i + 7) s
      in if flg = MODEM_RECORD_COMPLETE
         then (let s = s\<lparr>modemRecordIndex := nat i\<rparr> in (int (modemRecordIndex s), s))
         else (- 1, s))"

definition getIndexOfPrevCompletedRecord :: "EEPROMRecordClass \<Rightarrow> int \<times> EEPROMRecordClass" where
  "getIndexOfPrevCompletedRecord s =
     (let i = int (modemRecordIndex s) - sizeof_EEPROMRecord_t;
          i = (if i < 0 then i + EEPROM_length s else i);
          (flg, s) = EEPROM_get (i + 7) s
      in if flg = MODEM_RECORD_COMPLETE
         then (let s = s\<lparr>modemRecordIndex := nat i\<rparr> in (int (modemRecordIndex s), s))
         else (- 1, s))"

definition getNextCompletedRecord :: "EEPROMRecordClass \<Rightarrow> int \<times> EEPROMRecordClass" where
  "getNextCompletedRecord s =
     (let (i, s) = getIndexOfNextCompletedRecord s
      in if i < 0 then (- 1, s)
         else (let (flg, s) = EEPROM_get (i + 7) s
               in if flg = MODEM_RECORD_COMPLETE
                  then (let s = s\<lparr>modemRecordIndex := nat i\<rparr> in (int (modemRecordIndex s), s))
                  else (- 1, s)))"

subsection \<open>getRecordInProgress\<close>

function getRecordInProgress_loop ::
  "int \<Rightarrow> int \<Rightarrow> uint8_t \<Rightarrow> int \<Rightarrow> EEPROMRecordClass \<Rightarrow> (int \<times> uint8_t \<times> int) \<times> EEPROMRecordClass"
where
  "getRecordInProgress_loop numRecords i flg count s =
     (if flg \<noteq> MODEM_RECORD_IN_PROGRESS \<and> count \<le> numRecords
      then (let s = s\<lparr>modemRecordIndex := nat i\<rparr>;
                i = int (modemRecordIndex s) + sizeof_EEPROMRecord_t;
                i = (if i \<ge> EEPROM_length s then i - EEPROM_length s else i);
                (flg, s) = EEPROM_get (i + 7) s
            in getRecordInProgress_loop numRecords i flg (count + 1) s)
      else ((i, flg, count), s))"
  by pat_completeness auto
termination
  by (relation "measure (\<lambda>(numRecords, i, flg, count, s). nat (numRecords + 1 - count))") auto

definition getRecordInProgress :: "EEPROMRecordClass \<Rightarrow> int \<times> EEPROMRecordClass" where
  "getRecordInProgress s =
     (let count = 0;
          numRecords = EEPROM_length s div sizeof_EEPROMRecord_t;
          i = 0;
          (flg, s) = EEPROM_get (i + 7) s;
          ((i, flg, count), s) = getRecordInProgress_loop numRecords i flg count s
      in if count > numRecords then (- 1, s)
         else (let s = s\<lparr>modemRecordIndex := nat i\<rparr> in (int (modemRecordIndex s), s)))"

subsection \<open>getOldestCompletedRecord\<close>

text \<open>
  The local \<^verbatim>\<open>count\<close> is declared without an initial value and first assigned after the
  first loop, whose condition reads it. The value it holds until then is the parameter
  \<open>count0\<close> of the model.
\<close>

function getOldestCompletedRecord_loop1 ::
  "int \<Rightarrow> int \<Rightarrow> int \<Rightarrow> uint8_t \<Rightarrow> EEPROMRecordClass \<Rightarrow> (int + int \<times> uint8_t) \<times> EEPROMRecordClass"
where
  "getOldestCompletedRecord_loop1 numRecords count i flg s =
     (if flg \<noteq> MODEM_RECORD_IN_PROGRESS \<and> count \<le> numRecords
      then (let s = s\<lparr>modemRecordIndex := nat i\<rparr>;
                i = i + sizeof_EEPROMRecord_t
            in if i + 7 \<ge> EEPROM_length s then (Inl (- 1), s)
               else (let (flg, s) = EEPROM_get (i + 7) s
                     in getOldestCompletedRecord_loop1 numRecords count i flg s))
      else (Inr (i, flg), s))"
  by pat_completeness auto
termination
  by (relation "measure (\<lambda>(numRecords, count, i, flg, s). nat (EEPROM_length s - i))")
     (auto simp: EEPROM_get_def EEPROM_length_def)

function getOldestCompletedRecord_loop2 ::
  "int \<Rightarrow> int \<Rightarrow> uint8_t \<Rightarrow> int \<Rightarrow> EEPROMRecordClass \<Rightarrow> (int \<times> uint8_t \<times> int) \<times> EEPROMRecordClass"
where
  "getOldestCompletedRecord_loop2 numRecords i flg count s =
     (if count \<le> numRecords \<and> flg \<noteq> MODEM_RECORD_COMPLETE
      then (let i = i + sizeof_EEPROMRecord_t;
                i = (if i \<ge> EEPROM_length s then 0 else i);
                (flg, s) = EEPROM_get (i + 7) s
            in getOldestCompletedRecord_loop2 numRecords i flg (count + 1) s)
      else ((i, flg, count), s))"
  by pat_completeness auto
termination
  by (relation "measure (\<lambda>(numRecords, i, flg, count, s). nat (numRecords + 1 - count))") auto

definition getOldestCompletedRecord :: "int \<Rightarrow> EEPROMRecordClass \<Rightarrow> int \<times> EEPROMRecordClass" where
  "getOldestCompletedRecord count0 s =
     (let numRecords = EEPROM_length s div sizeof_EEPROMRecord_t;
          i = 0;
          (flg, s) = EEPROM_get (i + 7) s
      in case getOldestCompletedRecord_loop1 numRecords count0 i flg s of
           (Inl r, s) \<Rightarrow> (r, s)
         | (Inr (i, flg), s) \<Rightarrow>
             if count0 > numRecords then (- 1, s)
             else (let count = 1;
                       ((i, flg, count), s) = getOldestCompletedRecord_loop2 numRecords i flg count s
                   in if count \<le> numRecords
                      then (let s = s\<lparr>modemRecordIndex := nat i\<rparr> in (int (modemRecordIndex s), s))
                      else (- 1, s)))"

subsection \<open>getNewestCompletedRecord\<close>

function getNewestCompletedRecord_loop1 ::
  "int \<Rightarrow> int \<Rightarrow> uint8_t \<Rightarrow> int \<Rightarrow> EEPROMRecordClass \<Rightarrow> (int + int \<times> uint8_t \<times> int) \<times> EEPROMRecordClass"
where
  "getNewestCompletedRecord_loop1 numRecords i flg count s =
     (if flg \<noteq> MODEM_RECORD_COMPLETE \<and> count \<le> numRecords
      then (let s = s\<lparr>modemRecordIndex := nat i\<rparr>;
                (i, s) = getIndexOfNextCompletedRecord s
            in if i < 0 then (Inl (int (modemRecordIndex s)), s)
               else (let (flg, s) = EEPROM_get (i + 7) s
                     in getNewestCompletedRecord_loop1 numRecords i flg (count + 1) s))
      else (Inr (i, flg, count), s))"
  by pat_completeness auto
termination
  by (relation "measure (\<lambda>(numRecords, i, flg, count, s). nat (numRecords + 1 - count))") auto

text \<open>The second loop reads the byte at \<^verbatim>\<open>i+1\<close>, as the source does.\<close>

function getNewestCompletedRecord_loop2 ::
  "int \<Rightarrow> int \<Rightarrow> uint8_t \<Rightarrow> int \<Rightarrow> EEPROMRecordClass \<Rightarrow> (int + int \<times> uint8_t \<times> int) \<times> EEPROMRecordClass"
where
  "getNewestCompletedRecord_loop2 numRecords i flg count s =
     (if count \<le> numRecords \<and> flg = MODEM_RECORD_COMPLETE
      then (let s = s\<lparr>modemRecordIndex := nat i\<rparr>;
                (i, s) = getIndexOfNextCompletedRecord s
            in if i < 0 then (Inl (int (modemRecordIndex s)), s)
               else (let (flg, s) = EEPROM_get (i + 1) s
                     in getNewestCompletedRecord_loop2 numRecords i flg (count + 1) s))
      else (Inr (i, flg, count), s))"
  by pat_completeness auto
termination
  by (relation "measure (\<lambda>(numRecords, i, flg, count, s). nat (numRecords + 1 - count))") auto

definition getNewestCompletedRecord :: "EEPROMRecordClass \<Rightarrow> int \<times> EEPROMRecordClass" where
  "getNewestCompletedRecord s =
     (let count = 0;
          numRecords = EEPROM_length s div sizeof_EEPROMRecord_t;
          i = 0;
          (flg, s) = EEPROM_get (i + 7) s
      in case getNewestCompletedRecord_loop1 numRecords i flg count s of
           (Inl r, s) \<Rightarrow> (r, s)
         | (Inr (i, flg, count), s) \<Rightarrow>
             if count > numRecords then (- 1, s)
             else (let count = 0
                   in case getNewestCompletedRecord_loop2 numRecords i flg count s of
                        (Inl r, s) \<Rightarrow> (r, s)
                      | (Inr (i, flg, count), s) \<Rightarrow> (int (modemRecordIndex s), s)))"

text \<open>The constructor looks for the newest record and drops the result.\<close>

definition EEPROMRecordClass_ctor :: "EEPROMRecordClass \<Rightarrow> EEPROMRecordClass" where
  "EEPROMRecordClass_ctor s = snd (getNewestCompletedRecord s)"

subsection \<open>completeLogEntry, clearLog, setEEPROMUptimeStats\<close>

text \<open>
  \<^verbatim>\<open>completeLogEntry\<close> and \<^verbatim>\<open>setEEPROMUptimeStats\<close> end in a bare
  \<^verbatim>\<open>return;\<close> and \<^verbatim>\<open>clearLog\<close> returns 0: the model returns the object only.
  The test \<^verbatim>\<open>_modemRecordIndex < 0\<close> is on an unsigned cursor.
\<close>

definition completeLogEntry :: "EEPROMRecordClass \<Rightarrow> EEPROMRecordClass" where
  "completeLogEntry s =
     (let (r, s) = getRecordInProgress s;
          s = (if int (modemRecordIndex s) < 0 then s\<lparr>modemRecordIndex := 0\<rparr> else s);
          s = EEPROM_update (modemRecordIndex s) (secsSince1900_4 (EEPROMBlock s)) s;
          s = EEPROM_update (modemRecordIndex s + 1) (secsSince1900_3 (EEPROMBlock s)) s;
          s = EEPROM_update (modemRecordIndex s + 2) (secsSince1900_2 (EEPROMBlock s)) s;
          s = EEPROM_update (modemRecordIndex s + 3) (secsSince1900_1 (EEPROMBlock s)) s;
          s = EEPROM_update (modemRecordIndex s + 4) (downMins2 (EEPROMBlock s)) s;
          s = EEPROM_update (modemRecordIndex s + 5) (downMins1 (EEPROMBlock s)) s;
          s = EEPROM_update (modemRecordIndex s + 7) MODEM_RECORD_COMPLETE s;
          s = s\<lparr>modemRecordIndex := modemRecordIndex s + nat sizeof_EEPROMRecord_t\<rparr>;
          s = (if int (modemRecordIndex s) \<ge> EEPROM_length s
               then s\<lparr>modemRecordIndex := nat (int (modemRecordIndex s) - EEPROM_length s)\<rparr>
               else s);
          s = EEPROM_update (modemRecordIndex s) (secsSince1900_4 (EEPROMBlock s)) s;
          s = EEPROM_update (modemRecordIndex s + 1) (secsSince1900_3 (EEPROMBlock s)) s;
          s = EEPROM_update (modemRecordIndex s + 2) (secsSince1900_2 (EEPROMBlock s)) s;
          s = EEPROM_update (modemRecordIndex s + 3) (secsSince1900_1 (EEPROMBlock s)) s;
          s = EEPROM_update (modemRecordIndex s + 4) 0 s;
          s = EEPROM_update (modemRecordIndex s + 5) 0 s;
          s = EEPROM_update (modemRecordIndex s + 7) MODEM_RECORD_IN_PROGRESS s
      in s)"

function clearLog_loop :: "int \<Rightarrow> EEPROMRecordClass \<Rightarrow> EEPROMRecordClass" where
  "clearLog_loop i s =
     (if i < EEPROM_length s
      then clearLog_loop (i + 1) (EEPROM_update (nat i) MODEM_RECORD_UNUSED s)
      else s)"
  by pat_completeness auto
termination
  by (relation "measure (\<lambda>(i, s). nat (EEPROM_length s - i))")
     (auto simp: EEPROM_update_def EEPROM_length_def)

definition clearLog :: "EEPROMRecordClass \<Rightarrow> EEPROMRecordClass" where
  "clearLog s =
     (let s = clearLog_loop 0 s;
          s = EEPROM_update (modemRecordIndex s) (secsSince1900_4 (EEPROMBlock s)) s;
          s = EEPROM_update (modemRecordIndex s + 1) (secsSince1900_3 (EEPROMBlock s)) s;
          s = EEPROM_update (modemRecordIndex s + 2) (secsSince1900_2 (EEPROMBlock s)) s;
          s = EEPROM_update (modemRecordIndex s + 3) (secsSince1900_1 (EEPROMBlock s)) s;
          s = EEPROM_update (modemRecordIndex s + 4) (downMins2 (EEPROMBlock s)) s;
          s = EEPROM_update (modemRecordIndex s + 5) (downMins1 (EEPROMBlock s)) s;
          s = EEPROM_update (modemRecordIndex s + 7) MODEM_RECORD_IN_PROGRESS s
      in s)"

function setEEPROMUptimeStats_loop ::
  "int \<Rightarrow> uint8_t \<Rightarrow> EEPROMRecordClass \<Rightarrow> uint8_t \<times> EEPROMRecordClass"
where
  "setEEPROMUptimeStats_loop EEPROMlength flg s =
     (if flg \<noteq> MODEM_RECORD_IN_PROGRESS \<and> int (modemRecordIndex s) + 7 < EEPROMlength
      then (let s = s\<lparr>modemRecordIndex := modemRecordIndex s + nat sizeof_EEPROMRecord_t\<rparr>;
                (flg, s) = (if int (modemRecordIndex s) + 7 < EEPROMlength
                            then EEPROM_get (int (modemRecordIndex s) + 7) s
                            else (flg, s))
            in setEEPROMUptimeStats_loop EEPROMlength flg s)
      else (flg, s))"
  by pat_completeness auto
termination
  by (relation "measure (\<lambda>(EEPROMlength, flg, s). nat (EEPROMlength - int (modemRecordIndex s)))")
     (auto simp: EEPROM_get_def split: if_splits)

definition setEEPROMUptimeStats :: "EEPROMRecordClass \<Rightarrow> EEPROMRecordClass" where
  "setEEPROMUptimeStats s =
     (let EEPROMlength = EEPROM_length s;
          s = s\<lparr>modemRecordIndex := 0\<rparr>;
          (flg, s) = EEPROM_get (int (modemRecordIndex s) + 7) s;
          (flg, s) = setEEPROMUptimeStats_loop EEPROMlength flg s;
          s = (if flg \<noteq> MODEM_RECORD_IN_PROGRESS then s\<lparr>modemRecordIndex := 0\<rparr> else s);
          s = EEPROM_update (modemRecordIndex s) (secsSince1900_4 (EEPROMBlock s)) s;
          s = EEPROM_update (modemRecordIndex s + 1) (secsSince1900_3 (EEPROMBlock s)) s;
          s = EEPROM_update (modemRecordIndex s + 2) (secsSince1900_2 (EEPROMBlock s)) s;
          s = EEPROM_update (modemRecordIndex s + 3) (secsSince1900_1 (EEPROMBlock s)) s;
          s = EEPROM_update (modemRecordIndex s + 4) (downMins2 (EEPROMBlock s)) s;
          s = EEPROM_update (modemRecordIndex s + 5) (downMins1 (EEPROMBlock s)) s;
          s = EEPROM_update (modemRecordIndex s + 7) MODEM_RECORD_IN_PROGRESS s
      in s)"

subsection \<open>getEEPROMUptimeStats\<close>

function getEEPROMUptimeStats_loop ::
  "int \<Rightarrow> int \<Rightarrow> bool \<Rightarrow> EEPROMRecordClass \<Rightarrow> (int \<times> bool) \<times> EEPROMRecordClass"
where
  "getEEPROMUptimeStats_loop EEPROMlength i found s =
     (if i + 7 < EEPROMlength \<and> found \<noteq> True
      then (let (flg, s) = EEPROM_get (i + 7) s
            in if flg = MODEM_RECORD_IN_PROGRESS
               then getEEPROMUptimeStats_loop EEPROMlength i True s
               else getEEPROMUptimeStats_loop EEPROMlength (i + sizeof_EEPROMRecord_t) found s)
      else ((i, found), s))"
  by pat_completeness auto
termination
  by (relation "measure (\<lambda>(EEPROMlength, i, found, s).
        nat (EEPROMlength - i) + (if found then 0 else 1))") auto

definition getEEPROMUptimeStats :: "EEPROMRecordClass \<Rightarrow> EEPROMRecordClass" where
  "getEEPROMUptimeStats s =
     (let ((i, found), s) = getEEPROMUptimeStats_loop (EEPROM_length s) 0 False s
      in if found then getDataFromIndex i s
         else s\<lparr>EEPROMBlock := (EEPROMBlock s)
                 \<lparr>secsSince1900_4 := 0, secsSince1900_3 := 0, secsSince1900_2 := 0,
                  secsSince1900_1 := 0, downMins2 := 0, downMins1 := 0,
                  flags := MODEM_RECORD_IN_PROGRESS\<rparr>\<rparr>)"

subsection \<open>Sequences of calls\<close>

text \<open>
  The application loads the staging block with \<^verbatim>\<open>convertToEEPROMBlock\<close> before it
  calls \<^verbatim>\<open>completeLogEntry\<close>. A sequence of calls is a list: \<open>Some r\<close> loads \<open>r\<close>
  and then calls, \<open>None\<close> calls with the staging block as it is.
\<close>

fun completeLogEntry_calls :: "modemRecord_t option list \<Rightarrow> EEPROMRecordClass \<Rightarrow> EEPROMRecordClass" where
  "completeLogEntry_calls [] s = s"
| "completeLogEntry_calls (None # rs) s = completeLogEntry_calls rs (completeLogEntry s)"
| "completeLogEntry_calls (Some r # rs) s =
     completeLogEntry_calls rs (completeLogEntry (convertToEEPROMBlock r s))"

section \<open>Vocabulary of the properties\<close>

text \<open>
  The ring has \<open>length mem div 8\<close> slots; slot \<open>j\<close> occupies the bytes \<open>8 * j\<close> to
  \<open>8 * j + 7\<close> and its flags byte is the last of them. A ring is well formed when its
  length is a positive multiple of the slot size.
\<close>

definition ring_ok :: "uint8_t list \<Rightarrow> bool" where
  "ring_ok mem = (0 < length mem \<and> length mem mod 8 = 0)"

definition slot_flag :: "uint8_t list \<Rightarrow> nat \<Rightarrow> uint8_t" where
  "slot_flag mem j = mem ! (8 * j + 7)"

definition slots_with :: "uint8_t \<Rightarrow> uint8_t list \<Rightarrow> nat list" where
  "slots_with f mem = filter (\<lambda>j. slot_flag mem j = f) [0..<length mem div 8]"

text \<open>The cursor is the offset of a slot of the ring.\<close>

definition cursor_ok :: "EEPROMRecordClass \<Rightarrow> bool" where
  "cursor_ok s = (modemRecordIndex s mod 8 = 0 \<and> modemRecordIndex s < length (eeprom s))"

text \<open>
  The first slot, from slot 0 on, whose flags byte is \<open>f\<close>; the slot
  \<^verbatim>\<open>getRecordInProgress\<close> settles on and the number of bytes it reads to get there;
  the seven \<^verbatim>\<open>EEPROM.update\<close> calls that store a block at an offset, and the
  effect of a sequence of such calls on the bytes.
\<close>

definition first_slot_with :: "uint8_t \<Rightarrow> uint8_t list \<Rightarrow> nat option" where
  "first_slot_with f mem = List.find (\<lambda>j. slot_flag mem j = f) [0..<length mem div 8]"

definition slot_writes :: "nat \<Rightarrow> EEPROMRecord_t \<Rightarrow> uint8_t \<Rightarrow> uint8_t \<Rightarrow> uint8_t \<Rightarrow> (nat \<times> uint8_t) list" where
  "slot_writes a blk d2 d1 fl =
     [(a, secsSince1900_4 blk), (a + 1, secsSince1900_3 blk), (a + 2, secsSince1900_2 blk),
      (a + 3, secsSince1900_1 blk), (a + 4, d2), (a + 5, d1), (a + 7, fl)]"

definition apply_writes :: "(nat \<times> uint8_t) list \<Rightarrow> uint8_t list \<Rightarrow> uint8_t list" where
  "apply_writes ws mem = foldl (\<lambda>m (a, v). m[a := v]) mem ws"

definition in_progress_slot :: "uint8_t list \<Rightarrow> nat" where
  "in_progress_slot mem =
     (case first_slot_with MODEM_RECORD_IN_PROGRESS mem of Some j \<Rightarrow> j | None \<Rightarrow> 0)"

definition in_progress_gets :: "uint8_t list \<Rightarrow> nat" where
  "in_progress_gets mem =
     (case first_slot_with MODEM_RECORD_IN_PROGRESS mem of Some j \<Rightarrow> j + 1
      | None \<Rightarrow> length mem div 8 + 2)"

definition blank_store :: "nat \<Rightarrow> EEPROMRecordClass" where
  "blank_store L =
     \<lparr>eeprom = replicate L MODEM_RECORD_UNUSED, modemRecordIndex = 0,
      EEPROMBlock = \<lparr>secsSince1900_4 = 0, secsSince1900_3 = 0, secsSince1900_2 = 0,
        secsSince1900_1 = 0, downMins2 = 0, downMins1 = 0, spare = 0, flags = 0\<rparr>,
      updates = [], gets = 0\<rparr>"

definition next_offset :: "EEPROMRecordClass \<Rightarrow> int" where
  "next_offset s =
     (if int (modemRecordIndex s) + sizeof_EEPROMRecord_t \<ge> EEPROM_length s then 0
      else int (modemRecordIndex s) + sizeof_EEPROMRecord_t)"

definition in_progress_at_8 :: EEPROMRecordClass where
  "in_progress_at_8 =
     (blank_store 16)\<lparr>eeprom := (replicate 16 MODEM_RECORD_UNUSED)[15 := MODEM_RECORD_IN_PROGRESS]\<rparr>"

definition two_completed :: EEPROMRecordClass where
  "two_completed =
     (blank_store 16)\<lparr>eeprom := (replicate 16 MODEM_RECORD_UNUSED)
        [7 := MODEM_RECORD_COMPLETE, 15 := MODEM_RECORD_COMPLETE],
       EEPROMBlock := \<lparr>secsSince1900_4 = 1, secsSince1900_3 = 2, secsSince1900_2 = 3,
        secsSince1900_1 = 4, downMins2 = 5, downMins1 = 6, spare = 0, flags = 1\<rparr>\<rparr>"

definition steps_to_complete :: "uint8_t list \<Rightarrow> nat \<Rightarrow> nat option" where
  "steps_to_complete mem j =
     List.find (\<lambda>m. slot_flag mem ((j + m) mod (length mem div 8)) = MODEM_RECORD_COMPLETE)
       [0..<length mem div 8]"

definition uptime_gets :: "uint8_t list \<Rightarrow> nat" where
  "uptime_gets mem =
     (case first_slot_with MODEM_RECORD_IN_PROGRESS mem of Some j \<Rightarrow> j + 1
      | None \<Rightarrow> length mem div 8)"

definition scanned :: "nat \<Rightarrow> EEPROMRecordClass \<Rightarrow> EEPROMRecordClass \<Rightarrow> bool" where
  "scanned b s s' =
     (eeprom s' = eeprom s \<and> updates s' = updates s \<and> EEPROMBlock s' = EEPROMBlock s \<and>
      gets s' \<le> gets s + b \<and>
      (modemRecordIndex s' = modemRecordIndex s \<or> cursor_ok s'))"

definition store_ok :: "EEPROMRecordClass \<Rightarrow> bool" where
  "store_ok s = (ring_ok (eeprom s) \<and> cursor_ok s)"

definition in_progress_at_24 :: EEPROMRecordClass where
  "in_progress_at_24 =
     (blank_store 32)\<lparr>eeprom := (replicate 32 MODEM_RECORD_UNUSED)[31 := MODEM_RECORD_IN_PROGRESS]\<rparr>"

text \<open>
  The order of the writes of one call. \<open>issued f s\<close> is the list of
  \<^verbatim>\<open>EEPROM.update\<close> calls that \<open>f\<close> makes from \<open>s\<close>, oldest first, and
  \<open>written ws mem\<close> keeps of them the ones that change a byte of \<open>mem\<close>, which are
  the ones the library passes on to the device. A write is a flag write when it puts
  COMPLETE or IN_PROGRESS into byte 7 of a slot, a payload write when it goes to bytes 0
  to 5 of a slot. \<open>flag_last ws\<close>: no flag write in \<open>ws\<close> is followed by a payload
  write to the same slot.
\<close>

definition is_flag_write :: "nat \<times> uint8_t \<Rightarrow> bool" where
  "is_flag_write w =
     (fst w mod 8 = 7 \<and> (snd w = MODEM_RECORD_COMPLETE \<or> snd w = MODEM_RECORD_IN_PROGRESS))"

definition is_payload_write :: "nat \<times> uint8_t \<Rightarrow> bool" where
  "is_payload_write w = (fst w mod 8 \<le> 5)"

definition same_slot :: "nat \<times> uint8_t \<Rightarrow> nat \<times> uint8_t \<Rightarrow> bool" where
  "same_slot w w' = (fst w div 8 = fst w' div 8)"

fun flag_last :: "(nat \<times> uint8_t) list \<Rightarrow> bool" where
  "flag_last [] = True"
| "flag_last (w # ws) =
     ((\<not> is_flag_write w \<or> list_all (\<lambda>w'. \<not> (is_payload_write w' \<and> same_slot w w')) ws) \<and>
      flag_last ws)"

fun written :: "(nat \<times> uint8_t) list \<Rightarrow> uint8_t list \<Rightarrow> (nat \<times> uint8_t) list" where
  "written [] mem = []"
| "written ((a, v) # ws) mem =
     (if a < length mem \<and> mem ! a \<noteq> v then (a, v) # written ws (mem[a := v])
      else written ws (mem[a := v]))"

definition issued ::
  "(EEPROMRecordClass \<Rightarrow> EEPROMRecordClass) \<Rightarrow> EEPROMRecordClass \<Rightarrow> (nat \<times> uint8_t) list" where
  "issued f s = drop (length (updates s)) (updates (f s))"

text \<open>
  A traversal as the sketch makes it for its history command:
  \<^verbatim>\<open>getOldestCompletedRecord\<close>, then \<^verbatim>\<open>getNextCompletedRecord\<close> again and again,
  and after each call that succeeds \<^verbatim>\<open>dumpOutageRecord\<close>, which reads the slot at the
  cursor with \<^verbatim>\<open>getDataFromIndex\<close> and decodes it with
  \<^verbatim>\<open>convertFromEEPROMBlock\<close>. \<open>record_at_cursor s\<close> is the timestamp and the minutes
  read that way; \<open>oldest_then_next count0 n s\<close> is the result and the state of the last
  call of \<^verbatim>\<open>getOldestCompletedRecord\<close> followed by \<open>n\<close> calls of
  \<^verbatim>\<open>getNextCompletedRecord\<close>. \<open>logged rs N s\<close>: the ring of \<open>N\<close> slots holds the
  records \<open>rs\<close>, completed and in this order, in its first slots; the slot after them is
  in progress (when there is a record at all) and the other slots are unused.
  \<open>A_then_B\<close> is the ring of four slots, blank at first, after the application has
  logged record A (timestamp 100, 0 minutes) and then record B (timestamp 200, 5 minutes).
\<close>

definition record_at_cursor :: "EEPROMRecordClass \<Rightarrow> uint32_t \<times> uint16_t" where
  "record_at_cursor s =
     (let mRec = convertFromEEPROMBlock \<lparr>secsSince1900 = 0, downMins = 0, waitSecs = 0\<rparr>
                   (getDataFromIndex_cursor s)
      in (secsSince1900 mRec, downMins mRec))"

fun oldest_then_next :: "int \<Rightarrow> nat \<Rightarrow> EEPROMRecordClass \<Rightarrow> int \<times> EEPROMRecordClass" where
  "oldest_then_next count0 0 s = getOldestCompletedRecord count0 s"
| "oldest_then_next count0 (Suc n) s = getNextCompletedRecord (snd (oldest_then_next count0 n s))"

definition logged :: "modemRecord_t list \<Rightarrow> nat \<Rightarrow> EEPROMRecordClass \<Rightarrow> bool" where
  "logged rs N s =
     (length (eeprom s) = 8 * N \<and>
      (\<forall>i<length rs. slot_flag (eeprom s) i = MODEM_RECORD_COMPLETE \<and>
          record_at_cursor (s\<lparr>modemRecordIndex := 8 * i\<rparr>) =
            (secsSince1900 (rs ! i), downMins (rs ! i))) \<and>
      (\<forall>j<N. length rs \<le> j \<longrightarrow>
          slot_flag (eeprom s) j =
            (if j = length rs \<and> rs \<noteq> [] then MODEM_RECORD_IN_PROGRESS else MODEM_RECORD_UNUSED)))"

definition A_then_B :: EEPROMRecordClass where
  "A_then_B =
     completeLogEntry_calls
       [Some \<lparr>secsSince1900 = 100, downMins = 0, waitSecs = 0\<rparr>,
        Some \<lparr>secsSince1900 = 200, downMins = 5, waitSecs = 0\<rparr>]
       (blank_store 32)"

section \<open>The codec round trip\<close>

lemma ff_mask32: "(0xff :: uint32_t) = mask 8"
  by (simp add: mask_eq_exp_minus_1)

lemma ff_mask16: "(0xff :: uint16_t) = mask 8"
  by (simp add: mask_eq_exp_minus_1)

text \<open>Four bytes cut out of a 32-bit value, most significant first, add up to it again.\<close>

lemma bytes_of_uint32:
  fixes x :: uint32_t
  shows "push_bit 24 (ucast (ucast (drop_bit 24 x AND 0xff) :: uint8_t) :: uint32_t) +
         push_bit 16 (ucast (ucast (drop_bit 16 x AND 0xff) :: uint8_t) :: uint32_t) +
         push_bit 8 (ucast (ucast (drop_bit 8 x AND 0xff) :: uint8_t) :: uint32_t) +
         (ucast (ucast (x AND 0xff) :: uint8_t) :: uint32_t) = x"
proof -
  let ?a = "push_bit 24 (ucast (ucast (drop_bit 24 x AND 0xff) :: uint8_t) :: uint32_t)"
  let ?b = "push_bit 16 (ucast (ucast (drop_bit 16 x AND 0xff) :: uint8_t) :: uint32_t)"
  let ?c = "push_bit 8 (ucast (ucast (drop_bit 8 x AND 0xff) :: uint8_t) :: uint32_t)"
  let ?d = "ucast (ucast (x AND 0xff) :: uint8_t) :: uint32_t"
  have ab: "?a + ?b = ?a OR ?b"
    by (rule disjunctive_add) (auto simp: bit_simps ff_mask32)
  have abc: "(?a OR ?b) + ?c = (?a OR ?b) OR ?c"
    by (rule disjunctive_add) (auto simp: bit_simps ff_mask32)
  have abcd: "((?a OR ?b) OR ?c) + ?d = ((?a OR ?b) OR ?c) OR ?d"
    by (rule disjunctive_add) (auto simp: bit_simps ff_mask32)
  have "((?a OR ?b) OR ?c) OR ?d = x"
  proof (rule bit_word_eqI)
    fix n assume "n < LENGTH(32)"
    then consider "n < 8" | "8 \<le> n" "n < 16" | "16 \<le> n" "n < 24" | "24 \<le> n" "n < 32"
      by fastforce
    then show "bit (((?a OR ?b) OR ?c) OR ?d) n = bit x n"
      by cases (auto simp: bit_simps ff_mask32)
  qed
  then show ?thesis by (simp only: ab abc abcd)
qed

lemma bytes_of_uint16:
  fixes x :: uint16_t
  shows "push_bit 8 (ucast (ucast (drop_bit 8 x AND 0xff) :: uint8_t) :: uint16_t) +
         (ucast (ucast (x AND 0xff) :: uint8_t) :: uint16_t) = x"
proof -
  let ?c = "push_bit 8 (ucast (ucast (drop_bit 8 x AND 0xff) :: uint8_t) :: uint16_t)"
  let ?d = "ucast (ucast (x AND 0xff) :: uint8_t) :: uint16_t"
  have cd: "?c + ?d = ?c OR ?d"
    by (rule disjunctive_add) (auto simp: bit_simps ff_mask16)
  have "?c OR ?d = x"
  proof (rule bit_word_eqI)
    fix n assume "n < LENGTH(16)"
    then consider "n < 8" | "8 \<le> n" "n < 16"
      by fastforce
    then show "bit (?c OR ?d) n = bit x n"
      by cases (auto simp: bit_simps ff_mask16)
  qed
  then show ?thesis by (simp only: cd)
qed

text \<open>
  C9. For every timestamp (a 32-bit value) and every number of minutes (a 16-bit value),
  loading a record into the staging block with \<^verbatim>\<open>convertToEEPROMBlock\<close> and reading the
  block back with \<^verbatim>\<open>convertFromEEPROMBlock\<close> gives the destination exactly that
  timestamp and that number of minutes, whatever the destination and the object held
  before; the destination's \<open>waitSecs\<close> is not touched.
\<close>

theorem codec_round_trip:
  "secsSince1900 (convertFromEEPROMBlock dst (convertToEEPROMBlock src s)) = secsSince1900 src \<and>
   downMins (convertFromEEPROMBlock dst (convertToEEPROMBlock src s)) = downMins src \<and>
   waitSecs (convertFromEEPROMBlock dst (convertToEEPROMBlock src s)) = waitSecs dst"
  by (simp add: convertFromEEPROMBlock_def convertToEEPROMBlock_def
        bytes_of_uint32 bytes_of_uint16)

section \<open>What the scans and the writers compute\<close>

text \<open>
  The lemmas of this section describe each method by its result and by the record fields
  it changes. The nested \<open>let\<close>s of the writers are evaluated from the outside in
  (\<open>cong: let_weak_cong\<close>), so that every cursor is known before the next call.
\<close>

declare getRecordInProgress_loop.simps [simp del]

lemmas flag_consts = MODEM_RECORD_COMPLETE_def MODEM_RECORD_IN_PROGRESS_def MODEM_RECORD_UNUSED_def

lemma EEPROM_byte_frame [simp]:
  "EEPROM_byte (s\<lparr>gets := g\<rparr>) a = EEPROM_byte s a"
  "EEPROM_byte (s\<lparr>modemRecordIndex := x\<rparr>) a = EEPROM_byte s a"
  by (simp_all add: EEPROM_byte_def EEPROM_length_def)

lemma EEPROM_length_frame [simp]:
  "EEPROM_length (s\<lparr>gets := g\<rparr>) = EEPROM_length s"
  "EEPROM_length (s\<lparr>modemRecordIndex := x\<rparr>) = EEPROM_length s"
  by (simp_all add: EEPROM_length_def)

text \<open>Updates of the cursor and of the read counter, in one order.\<close>

lemma cursor_gets_commute [simp]:
  "s\<lparr>gets := g, modemRecordIndex := i\<rparr> = s\<lparr>modemRecordIndex := i, gets := g\<rparr>"
  by simp

lemma EEPROM_byte_flag:
  "length (eeprom s) = 8 * N \<Longrightarrow> j < N \<Longrightarrow> a = 8 * int j + 7 \<Longrightarrow> EEPROM_byte s a = slot_flag (eeprom s) j"
  by (simp add: EEPROM_byte_def EEPROM_length_def slot_flag_def nat_add_distrib nat_mult_distrib)

lemma RIP_loop_stop:
  "flg = MODEM_RECORD_IN_PROGRESS \<or> n < c \<Longrightarrow> getRecordInProgress_loop n i flg c s = ((i, flg, c), s)"
  by (subst getRecordInProgress_loop.simps) auto

lemma RIP_loop_step:
  assumes "flg \<noteq> MODEM_RECORD_IN_PROGRESS" "c \<le> n" "0 \<le> i"
    and "i' = (if i + 8 \<ge> EEPROM_length s then i + 8 - EEPROM_length s else i + 8)"
  shows "getRecordInProgress_loop n i flg c s =
         getRecordInProgress_loop n i' (EEPROM_byte s (i' + 7)) (c + 1)
           (s\<lparr>modemRecordIndex := nat i, gets := gets s + 1\<rparr>)"
  using assms by (subst getRecordInProgress_loop.simps) (simp add: EEPROM_get_def Let_def)

lemma RIP_loop_found:
  assumes L: "length (eeprom s) = 8 * N"
    and "j0 - j = d" "j \<le> j0" "j0 < N"
    and "\<forall>k. j \<le> k \<and> k < j0 \<longrightarrow> slot_flag (eeprom s) k \<noteq> MODEM_RECORD_IN_PROGRESS"
    and "slot_flag (eeprom s) j0 = MODEM_RECORD_IN_PROGRESS"
    and "flg = slot_flag (eeprom s) j"
    and "c + int d \<le> n"
  shows "getRecordInProgress_loop n (8 * int j) flg c s =
           ((8 * int j0, MODEM_RECORD_IN_PROGRESS, c + int d),
            s\<lparr>modemRecordIndex := (if d = 0 then modemRecordIndex s else 8 * (j0 - 1)),
              gets := gets s + d\<rparr>)"
  using assms
proof (induction d arbitrary: j flg c s)
  case 0
  then have "j = j0" by simp
  with 0 show ?case
    by (simp add: RIP_loop_stop)
next
  case (Suc d)
  then have jlt: "j < j0" and flg: "flg \<noteq> MODEM_RECORD_IN_PROGRESS" and c: "c \<le> n"
    by auto
  let ?s = "s\<lparr>modemRecordIndex := nat (8 * int j), gets := gets s + 1\<rparr>"
  have i': "8 * int (Suc j) = (if 8 * int j + 8 \<ge> EEPROM_length s then 8 * int j + 8 - EEPROM_length s else 8 * int j + 8)"
    using jlt Suc.prems(1,4) by (simp add: EEPROM_length_def)
  have b: "EEPROM_byte s (8 * int (Suc j) + 7) = slot_flag (eeprom s) (Suc j)"
    using jlt Suc.prems(1,4) by (intro EEPROM_byte_flag[of _ N]) auto
  have step: "getRecordInProgress_loop n (8 * int j) flg c s =
     getRecordInProgress_loop n (8 * int (Suc j)) (slot_flag (eeprom s) (Suc j)) (c + 1) ?s"
    using RIP_loop_step[OF flg c _ i'] b by simp
  have "getRecordInProgress_loop n (8 * int (Suc j)) (slot_flag (eeprom s) (Suc j)) (c + 1) ?s =
      ((8 * int j0, MODEM_RECORD_IN_PROGRESS, (c + 1) + int d),
            ?s\<lparr>modemRecordIndex := (if d = 0 then modemRecordIndex ?s else 8 * (j0 - 1)),
              gets := gets ?s + d\<rparr>)"
    using Suc.prems jlt by (intro Suc.IH) auto
  with step show ?case using Suc.prems(2) jlt by (auto simp: nat_mult_distrib)
qed

lemma RIP_loop_not_found:
  assumes L: "length mem = 8 * N" and N: "0 < N"
    and none: "\<forall>k<N. slot_flag mem k \<noteq> MODEM_RECORD_IN_PROGRESS"
    and "eeprom s = mem" "j < N" "flg = slot_flag mem j" "c \<le> n + 1" "m = nat (n + 1 - c)"
  shows "getRecordInProgress_loop n (8 * int j) flg c s =
           ((8 * int ((j + m) mod N), slot_flag mem ((j + m) mod N), n + 1),
            s\<lparr>modemRecordIndex := (if m = 0 then modemRecordIndex s else 8 * ((j + m - 1) mod N)),
              gets := gets s + m\<rparr>)"
  using assms(4-)
proof (induction m arbitrary: j flg c s)
  case 0
  then have "c = n + 1" by simp
  with 0 show ?case
    by (simp add: RIP_loop_stop)
next
  case (Suc m)
  then have c: "c \<le> n" and flg: "flg \<noteq> MODEM_RECORD_IN_PROGRESS"
    using none by auto
  let ?j' = "Suc j mod N"
  let ?s = "s\<lparr>modemRecordIndex := nat (8 * int j), gets := gets s + 1\<rparr>"
  have Ls: "length (eeprom s) = 8 * N" using L Suc.prems(1) by simp
  have j': "?j' < N" using N by simp
  have i': "8 * int ?j' = (if 8 * int j + 8 \<ge> EEPROM_length s then 8 * int j + 8 - EEPROM_length s else 8 * int j + 8)"
  proof (cases "Suc j = N")
    case True
    then show ?thesis using Ls by (simp add: EEPROM_length_def)
  next
    case False
    with Suc.prems(2) have "Suc j < N" by simp
    then show ?thesis using Ls by (simp add: EEPROM_length_def)
  qed
  have b: "EEPROM_byte s (8 * int ?j' + 7) = slot_flag mem ?j'"
    using j' Ls Suc.prems(1) EEPROM_byte_flag[of s N ?j'] by simp
  have step: "getRecordInProgress_loop n (8 * int j) flg c s =
     getRecordInProgress_loop n (8 * int ?j') (slot_flag mem ?j') (c + 1) ?s"
    using RIP_loop_step[OF flg c _ i'] b by simp
  have "getRecordInProgress_loop n (8 * int ?j') (slot_flag mem ?j') (c + 1) ?s =
      ((8 * int ((?j' + m) mod N), slot_flag mem ((?j' + m) mod N), n + 1),
            ?s\<lparr>modemRecordIndex := (if m = 0 then modemRecordIndex ?s else 8 * ((?j' + m - 1) mod N)),
              gets := gets ?s + m\<rparr>)"
    using Suc.prems j' by (intro Suc.IH) auto
  moreover have "(?j' + m) mod N = (j + Suc m) mod N"
    by (simp add: mod_simps)
  moreover have "(?j' + m - 1) mod N = (j + Suc m - 1) mod N" if "m \<noteq> 0"
  proof -
    from that obtain m' where "m = Suc m'" by (cases m) auto
    then show ?thesis by (simp add: mod_simps)
  qed
  ultimately show ?case using step Suc.prems(2) by (auto simp: nat_mult_distrib)
qed

lemma first_slot_with_Some:
  "length mem = 8 * N \<Longrightarrow> first_slot_with f mem = Some j \<longleftrightarrow>
     j < N \<and> slot_flag mem j = f \<and> (\<forall>k<j. slot_flag mem k \<noteq> f)"
  by (auto simp: first_slot_with_def find_Some_iff)

lemma first_slot_with_None:
  "length mem = 8 * N \<Longrightarrow> first_slot_with f mem = None \<longleftrightarrow> (\<forall>k<N. slot_flag mem k \<noteq> f)"
  by (auto simp: first_slot_with_def find_None_iff)

lemma getRecordInProgress_found:
  assumes L: "length (eeprom s) = 8 * N"
    and f: "first_slot_with MODEM_RECORD_IN_PROGRESS (eeprom s) = Some j0"
  shows "getRecordInProgress s =
           (8 * int j0, s\<lparr>modemRecordIndex := 8 * j0, gets := gets s + j0 + 1\<rparr>)"
proof -
  from f L have j0: "j0 < N" "slot_flag (eeprom s) j0 = MODEM_RECORD_IN_PROGRESS"
      "\<forall>k<j0. slot_flag (eeprom s) k \<noteq> MODEM_RECORD_IN_PROGRESS"
    by (simp_all add: first_slot_with_Some[OF L])
  let ?s = "s\<lparr>gets := gets s + 1\<rparr>"
  have b: "EEPROM_byte s 7 = slot_flag (eeprom s) 0"
    using j0(1) L EEPROM_byte_flag[of s N 0] by simp
  have "getRecordInProgress_loop (int N) (8 * int 0) (slot_flag (eeprom ?s) 0) 0 ?s =
          ((8 * int j0, MODEM_RECORD_IN_PROGRESS, 0 + int j0),
            ?s\<lparr>modemRecordIndex := (if j0 = 0 then modemRecordIndex ?s else 8 * (j0 - 1)),
              gets := gets ?s + j0\<rparr>)"
    using j0 L by (intro RIP_loop_found[where N = N]) auto
  then show ?thesis
    using L j0(1) b
    by (simp add: getRecordInProgress_def EEPROM_get_def EEPROM_length_def Let_def nat_mult_distrib)
qed

lemma getRecordInProgress_not_found:
  assumes L: "length (eeprom s) = 8 * N" and N: "0 < N"
    and f: "first_slot_with MODEM_RECORD_IN_PROGRESS (eeprom s) = None"
  shows "getRecordInProgress s =
           (- 1, s\<lparr>modemRecordIndex := 0, gets := gets s + N + 2\<rparr>)"
proof -
  from f L have none: "\<forall>k<N. slot_flag (eeprom s) k \<noteq> MODEM_RECORD_IN_PROGRESS"
    by (simp add: first_slot_with_None[OF L])
  let ?s = "s\<lparr>gets := gets s + 1\<rparr>"
  have b: "EEPROM_byte s 7 = slot_flag (eeprom s) 0"
    using N L EEPROM_byte_flag[of s N 0] by simp
  have "getRecordInProgress_loop (int N) (8 * int 0) (slot_flag (eeprom s) 0) 0 ?s =
           ((8 * int ((0 + Suc N) mod N), slot_flag (eeprom s) ((0 + Suc N) mod N), int N + 1),
            ?s\<lparr>modemRecordIndex := (if Suc N = 0 then modemRecordIndex ?s else 8 * ((0 + Suc N - 1) mod N)),
              gets := gets ?s + Suc N\<rparr>)"
    using none L N by (intro RIP_loop_not_found[where N = N]) auto
  then show ?thesis
    using L N b
    by (simp add: getRecordInProgress_def EEPROM_get_def EEPROM_length_def Let_def)
qed

lemma in_progress_slot_less:
  "length mem = 8 * N \<Longrightarrow> 0 < N \<Longrightarrow> in_progress_slot mem < N"
  by (auto simp: in_progress_slot_def first_slot_with_Some split: option.splits)

lemma getRecordInProgress_state:
  assumes L: "length (eeprom s) = 8 * N" and N: "0 < N"
  shows "snd (getRecordInProgress s) =
           s\<lparr>modemRecordIndex := 8 * in_progress_slot (eeprom s),
             gets := gets s + in_progress_gets (eeprom s)\<rparr>"
proof (cases "first_slot_with MODEM_RECORD_IN_PROGRESS (eeprom s)")
  case None
  then show ?thesis
    using getRecordInProgress_not_found[OF L N None] L
    by (simp add: in_progress_slot_def in_progress_gets_def)
next
  case (Some j0)
  then show ?thesis
    using getRecordInProgress_found[OF L Some]
    by (simp add: in_progress_slot_def in_progress_gets_def)
qed

lemma EEPROM_update_frame [simp]:
  "modemRecordIndex (EEPROM_update a v s) = modemRecordIndex s"
  "EEPROMBlock (EEPROM_update a v s) = EEPROMBlock s"
  "gets (EEPROM_update a v s) = gets s"
  "EEPROM_length (EEPROM_update a v s) = EEPROM_length s"
  by (simp_all add: EEPROM_update_def EEPROM_length_def)

lemma EEPROM_updates_slot:
  "EEPROM_update (a + 7) fl (EEPROM_update (a + 5) d1 (EEPROM_update (a + 4) d2
     (EEPROM_update (a + 3) (secsSince1900_1 blk) (EEPROM_update (Suc (Suc a)) (secsSince1900_2 blk)
       (EEPROM_update (Suc a) (secsSince1900_3 blk) (EEPROM_update a (secsSince1900_4 blk) s)))))) =
   s\<lparr>eeprom := apply_writes (slot_writes a blk d2 d1 fl) (eeprom s),
     updates := updates s @ slot_writes a blk d2 d1 fl\<rparr>"
  by (simp add: EEPROM_update_def slot_writes_def apply_writes_def)

lemma apply_writes_append: "apply_writes (ws @ ws') mem = apply_writes ws' (apply_writes ws mem)"
  by (simp add: apply_writes_def)

lemma if_state_distrib:
  "modemRecordIndex (if c then s else t) = (if c then modemRecordIndex s else modemRecordIndex t)"
  "EEPROMBlock (if c then s else t) = (if c then EEPROMBlock s else EEPROMBlock t)"
  "EEPROM_length (if c then s else t) = (if c then EEPROM_length s else EEPROM_length t)"
  "EEPROM_update a v (if c then s else t) = (if c then EEPROM_update a v s else EEPROM_update a v t)"
  by simp_all

lemma completeLogEntry_eq:
  assumes L: "length (eeprom s) = 8 * N" and N: "0 < N"
    and ja: "ja = in_progress_slot (eeprom s)"
    and ws: "ws = slot_writes (8 * ja) (EEPROMBlock s) (downMins2 (EEPROMBlock s))
                    (downMins1 (EEPROMBlock s)) MODEM_RECORD_COMPLETE @
                  slot_writes (8 * (Suc ja mod N)) (EEPROMBlock s) 0 0 MODEM_RECORD_IN_PROGRESS"
  shows "completeLogEntry s =
           s\<lparr>eeprom := apply_writes ws (eeprom s),
             modemRecordIndex := 8 * (Suc ja mod N),
             updates := updates s @ ws,
             gets := gets s + in_progress_gets (eeprom s)\<rparr>"
proof -
  have ja_less: "ja < N" using in_progress_slot_less[OF L N] ja by simp
  let ?g = "gets s + in_progress_gets (eeprom s)"
  let ?b = "8 * (Suc ja mod N)"
  have s1: "snd (getRecordInProgress s) = s\<lparr>modemRecordIndex := 8 * ja, gets := ?g\<rparr>"
    unfolding ja by (rule getRecordInProgress_state[OF L N])
  have EL: "EEPROM_length s = int (8 * N)" using L by (simp add: EEPROM_length_def)
  have wrap: "(if int (8 * ja) + 8 \<ge> int (8 * N) then nat (int (8 * ja) + 8 - int (8 * N)) else 8 * ja + 8) = ?b"
  proof (cases "Suc ja = N")
    case True
    then show ?thesis by auto
  next
    case False
    with ja_less have "Suc ja < N" by simp
    then show ?thesis by simp
  qed
  have split: "completeLogEntry s =
     EEPROM_update (?b + 7) MODEM_RECORD_IN_PROGRESS (EEPROM_update (?b + 5) 0 (EEPROM_update (?b + 4) 0
     (EEPROM_update (?b + 3) (secsSince1900_1 (EEPROMBlock s)) (EEPROM_update (Suc (Suc ?b)) (secsSince1900_2 (EEPROMBlock s))
       (EEPROM_update (Suc ?b) (secsSince1900_3 (EEPROMBlock s)) (EEPROM_update ?b (secsSince1900_4 (EEPROMBlock s))
     ((EEPROM_update (8 * ja + 7) MODEM_RECORD_COMPLETE (EEPROM_update (8 * ja + 5) (downMins1 (EEPROMBlock s)) (EEPROM_update (8 * ja + 4) (downMins2 (EEPROMBlock s))
     (EEPROM_update (8 * ja + 3) (secsSince1900_1 (EEPROMBlock s)) (EEPROM_update (Suc (Suc (8 * ja))) (secsSince1900_2 (EEPROMBlock s))
       (EEPROM_update (Suc (8 * ja)) (secsSince1900_3 (EEPROMBlock s)) (EEPROM_update (8 * ja) (secsSince1900_4 (EEPROMBlock s))
         (s\<lparr>modemRecordIndex := 8 * ja, gets := ?g\<rparr>))))))))\<lparr>modemRecordIndex := ?b\<rparr>)))))))"
  proof (cases "Suc ja = N")
    case True
    have EL': "EEPROM_length s = 8 * int ja + 8" using EL True by auto
    have m: "Suc ja mod N = 0" using True by simp
    show ?thesis
      unfolding completeLogEntry_def case_prod_unfold m
      apply (simp add: Let_def s1 EL' cong: let_weak_cong)
      done
  next
    case False
    with ja_less have "\<not> N \<le> ja + 1" "Suc ja mod N = Suc ja" by simp_all
    then show ?thesis
      unfolding completeLogEntry_def case_prod_unfold
      by (simp add: Let_def s1 EL add.commute cong: let_weak_cong)
  qed
  show ?thesis
    unfolding split
    by (simp add: EEPROM_update_def slot_writes_def apply_writes_def ws)
qed

subsection \<open>completeLogEntry, slot by slot\<close>

lemma length_apply_writes [simp]: "length (apply_writes ws mem) = length mem"
proof (induction ws arbitrary: mem)
  case Nil
  then show ?case by (simp add: apply_writes_def)
next
  case (Cons w ws)
  then show ?case by (cases w) (simp add: apply_writes_def)
qed

lemma flag_offset_neq:
  "r < 7 \<Longrightarrow> 8 * j + r \<noteq> 8 * k + (7::nat)"
  by presburger

lemma slot_flag_slot_writes:
  assumes "8 * j + 7 < length mem"
  shows "slot_flag (apply_writes (slot_writes (8 * j) blk d2 d1 fl) mem) k =
           (if k = j then fl else slot_flag mem k)"
proof -
  have "8 * j + r \<noteq> 8 * k + 7" if "r < 7" for r
    using that by (rule flag_offset_neq)
  from this[of 0] this[of 1] this[of 2] this[of 3] this[of 4] this[of 5] assms
  show ?thesis
    by (simp add: slot_flag_def apply_writes_def slot_writes_def nth_list_update)
qed

lemma slot_end_less: "j < N \<Longrightarrow> 8 * j + 7 < 8 * (N::nat)"
  by arith

lemma completeLogEntry_flags:
  assumes L: "length (eeprom s) = 8 * N" and N: "0 < N" and k: "k < N"
  shows "slot_flag (eeprom (completeLogEntry s)) k =
           (if k = Suc (in_progress_slot (eeprom s)) mod N then MODEM_RECORD_IN_PROGRESS
            else if k = in_progress_slot (eeprom s) then MODEM_RECORD_COMPLETE
            else slot_flag (eeprom s) k)"
proof -
  let ?ja = "in_progress_slot (eeprom s)"
  have ja: "?ja < N" by (rule in_progress_slot_less[OF L N])
  have jb: "Suc ?ja mod N < N" using N by simp
  have "8 * ?ja + 7 < length (eeprom s)" "8 * (Suc ?ja mod N) + 7 < length (eeprom s)"
    using slot_end_less[OF ja] slot_end_less[OF jb] L by simp_all
  then show ?thesis
    by (simp add: completeLogEntry_eq[OF L N refl refl] apply_writes_append slot_flag_slot_writes)
qed

lemma length_completeLogEntry:
  "length (eeprom s) = 8 * N \<Longrightarrow> 0 < N \<Longrightarrow> length (eeprom (completeLogEntry s)) = 8 * N"
  by (simp add: completeLogEntry_eq[OF _ _ refl refl])

lemma ring_okD: "ring_ok mem \<Longrightarrow> \<exists>N. length mem = 8 * N \<and> 0 < N"
  unfolding ring_ok_def by (metis mod_0_imp_dvd dvd_def nat_0_less_mult_iff)

lemma filter_upt_single:
  assumes "j < n" "\<forall>k<n. P k \<longleftrightarrow> k = j"
  shows "filter P [0..<n] = [j]"
proof -
  have eq: "filter P [0..<n] = filter (\<lambda>k. k = j) [0..<n]"
    using assms(2) by (intro filter_cong) auto
  have "[0..<n] = [0..<j] @ [j..<n]"
    using assms(1) upt_add_eq_append[of 0 j "n - j"] by simp
  also have "[j..<n] = j # [Suc j..<n]"
    using assms(1) by (simp add: upt_conv_Cons)
  finally have split: "[0..<n] = [0..<j] @ j # [Suc j..<n]" .
  have "filter (\<lambda>k. k = j) ([0..<j] @ j # [Suc j..<n]) = [j]"
    by (simp add: filter_empty_conv)
  then show ?thesis using eq split by simp
qed

lemma at_most_one_unique:
  assumes "length (filter P [0..<n]) \<le> 1" "j < n" "k < n" "P j" "P k"
  shows "j = k"
proof (rule ccontr)
  assume "j \<noteq> k"
  have "{j, k} \<subseteq> set (filter P [0..<n])" using assms by auto
  then have "card {j, k} \<le> card (set (filter P [0..<n]))"
    by (intro card_mono) auto
  also have "\<dots> = length (filter P [0..<n])"
    by (intro distinct_card) simp
  finally show False using \<open>j \<noteq> k\<close> assms(1) by simp
qed

lemma only_in_progress:
  assumes L: "length mem = 8 * N"
    and amo: "length (slots_with MODEM_RECORD_IN_PROGRESS mem) \<le> 1"
    and k: "k < N" "slot_flag mem k = MODEM_RECORD_IN_PROGRESS"
  shows "k = in_progress_slot mem"
proof -
  have "first_slot_with MODEM_RECORD_IN_PROGRESS mem \<noteq> None"
    using first_slot_with_None[OF L, of MODEM_RECORD_IN_PROGRESS] k by blast
  then obtain j0 where j0: "first_slot_with MODEM_RECORD_IN_PROGRESS mem = Some j0"
    by blast
  then have j0': "j0 < N" "slot_flag mem j0 = MODEM_RECORD_IN_PROGRESS"
    using first_slot_with_Some[OF L, of MODEM_RECORD_IN_PROGRESS j0] by blast+
  have "length (filter (\<lambda>j. slot_flag mem j = MODEM_RECORD_IN_PROGRESS) [0..<N]) \<le> 1"
    using amo L by (simp add: slots_with_def)
  then have "k = j0"
    using k(1) j0'(1) k(2) j0'(2) by (rule at_most_one_unique)
  then show ?thesis using j0 by (simp add: in_progress_slot_def)
qed

lemma completeLogEntry_one_in_progress:
  assumes L: "length (eeprom s) = 8 * N" and N: "0 < N"
    and amo: "length (slots_with MODEM_RECORD_IN_PROGRESS (eeprom s)) \<le> 1"
  shows "slots_with MODEM_RECORD_IN_PROGRESS (eeprom (completeLogEntry s)) =
           [Suc (in_progress_slot (eeprom s)) mod N]"
proof -
  let ?ja = "in_progress_slot (eeprom s)"
  let ?jb = "Suc ?ja mod N"
  have jb: "?jb < N" using N by simp
  have "slot_flag (eeprom (completeLogEntry s)) k = MODEM_RECORD_IN_PROGRESS \<longleftrightarrow> k = ?jb"
    if "k < N" for k
  proof (cases "slot_flag (eeprom s) k = MODEM_RECORD_IN_PROGRESS")
    case True
    then have "k = ?ja" using only_in_progress[OF L amo that] by simp
    then show ?thesis
      using completeLogEntry_flags[OF L N that] by (simp add: flag_consts)
  next
    case False
    then show ?thesis
      by (simp add: completeLogEntry_flags[OF L N that] flag_consts)
  qed
  then have "\<forall>k<N. slot_flag (eeprom (completeLogEntry s)) k = MODEM_RECORD_IN_PROGRESS \<longleftrightarrow> k = ?jb"
    by blast
  then have "filter (\<lambda>k. slot_flag (eeprom (completeLogEntry s)) k = MODEM_RECORD_IN_PROGRESS) [0..<N] = [?jb]"
    using jb by (intro filter_upt_single) auto
  then show ?thesis
    by (simp add: slots_with_def length_completeLogEntry[OF L N])
qed

lemma convertToEEPROMBlock_eeprom [simp]:
  "eeprom (convertToEEPROMBlock r s) = eeprom s"
  by (simp add: convertToEEPROMBlock_def)

lemma completeLogEntry_calls_invariant:
  assumes "length (eeprom s) = 8 * N" "0 < N"
    and "length (slots_with MODEM_RECORD_IN_PROGRESS (eeprom s)) \<le> 1"
  shows "length (eeprom (completeLogEntry_calls rs s)) = 8 * N \<and>
         length (slots_with MODEM_RECORD_IN_PROGRESS (eeprom (completeLogEntry_calls rs s))) \<le> 1"
  using assms
proof (induction rs s rule: completeLogEntry_calls.induct)
  case (1 s)
  then show ?case by simp
next
  case (2 rs s)
  then show ?case
    by (simp add: length_completeLogEntry completeLogEntry_one_in_progress)
next
  case (3 r rs s)
  then show ?case
    by (simp add: length_completeLogEntry completeLogEntry_one_in_progress)
qed

text \<open>
  C1. On a ring whose length is a positive multiple of the slot size and in which at most
  one slot's flags byte is \<open>MODEM_RECORD_IN_PROGRESS\<close>, after every call of any sequence
  of \<^verbatim>\<open>completeLogEntry\<close> calls (with or without a fresh record loaded before the
  call) at most one slot's flags byte is \<open>MODEM_RECORD_IN_PROGRESS\<close>. The states after
  each call are the results of the prefixes \<open>take k rs\<close> of the sequence.
\<close>

theorem completeLogEntry_calls_one_in_progress:
  assumes "ring_ok (eeprom s)"
    and "length (slots_with MODEM_RECORD_IN_PROGRESS (eeprom s)) \<le> 1"
  shows "\<forall>k\<le>length rs.
           length (slots_with MODEM_RECORD_IN_PROGRESS
                     (eeprom (completeLogEntry_calls (take k rs) s))) \<le> 1"
proof -
  from assms(1) obtain N where "length (eeprom s) = 8 * N" "0 < N"
    using ring_okD by blast
  then show ?thesis
    using completeLogEntry_calls_invariant[OF _ _ assms(2)] by blast
qed

text \<open>Unfolding these evaluates the methods on a concrete object.\<close>

lemmas eval_defs = blank_store_def EEPROM_get_def EEPROM_byte_def EEPROM_length_def EEPROM_update_def
  flag_consts Let_def getRecordInProgress_def getRecordInProgress_loop.simps
  getIndexOfNextCompletedRecord_def getNextCompletedRecord_def completeLogEntry_def
  convertToEEPROMBlock_def slots_with_def slot_flag_def ring_ok_def cursor_ok_def
  nth_list_update upt_rec

theorem completeLogEntry_calls_one_in_progress_witness:
  "ring_ok (eeprom (blank_store 16)) \<and>
   length (slots_with MODEM_RECORD_IN_PROGRESS (eeprom (blank_store 16))) \<le> 1 \<and>
   length (slots_with MODEM_RECORD_IN_PROGRESS
     (eeprom (completeLogEntry_calls
        (take 1 [None, Some \<lparr>secsSince1900 = 100, downMins = 5, waitSecs = 0\<rparr>])
        (blank_store 16)))) \<le> 1 \<and>
   length (slots_with MODEM_RECORD_IN_PROGRESS
     (eeprom (completeLogEntry_calls
        (take 2 [None, Some \<lparr>secsSince1900 = 100, downMins = 5, waitSecs = 0\<rparr>])
        (blank_store 16)))) \<le> 1"
proof -
  let ?rs = "[None, Some \<lparr>secsSince1900 = 100, downMins = 5, waitSecs = 0\<rparr>]"
  have h1: "ring_ok (eeprom (blank_store 16))"
    by (simp add: eval_defs)
  have h2: "length (slots_with MODEM_RECORD_IN_PROGRESS (eeprom (blank_store 16))) \<le> 1"
    by (simp add: eval_defs)
  have all: "\<forall>k\<le>length ?rs. length (slots_with MODEM_RECORD_IN_PROGRESS
      (eeprom (completeLogEntry_calls (take k ?rs) (blank_store 16)))) \<le> 1"
    by (rule completeLogEntry_calls_one_in_progress[OF h1 h2])
  have "(1::nat) \<le> length ?rs" "(2::nat) \<le> length ?rs" by simp_all
  with all h1 h2 show ?thesis by blast
qed

subsection \<open>One step forward\<close>

lemma next_offset_nonneg: "0 \<le> next_offset s"
  by (simp add: next_offset_def)

lemma getIndexOfNextCompletedRecord_eq:
  "getIndexOfNextCompletedRecord s =
     (if EEPROM_byte s (next_offset s + 7) = MODEM_RECORD_COMPLETE
      then (next_offset s, s\<lparr>modemRecordIndex := nat (next_offset s), gets := gets s + 1\<rparr>)
      else (- 1, s\<lparr>gets := gets s + 1\<rparr>))"
  using next_offset_nonneg[of s]
  by (simp add: getIndexOfNextCompletedRecord_def next_offset_def Let_def EEPROM_get_def)

lemma getNextCompletedRecord_eq:
  "getNextCompletedRecord s =
     (if EEPROM_byte s (next_offset s + 7) = MODEM_RECORD_COMPLETE
      then (next_offset s, s\<lparr>modemRecordIndex := nat (next_offset s), gets := gets s + 2\<rparr>)
      else (- 1, s\<lparr>gets := gets s + 1\<rparr>))"
  using next_offset_nonneg[of s]
  by (simp add: getNextCompletedRecord_def getIndexOfNextCompletedRecord_eq Let_def EEPROM_get_def)

text \<open>
  C7 (as amended). For every EEPROM content and every cursor, when the slot one step
  forward of the cursor (offset 0 after the last slot) is not
  \<open>MODEM_RECORD_COMPLETE\<close>, \<^verbatim>\<open>getNextCompletedRecord\<close> returns -1 and leaves
  \<^verbatim>\<open>_modemRecordIndex\<close> at its value from before the call: the cursor is assigned
  only under the test for \<open>MODEM_RECORD_COMPLETE\<close>.
\<close>

theorem getNextCompletedRecord_failure_keeps_cursor:
  assumes "EEPROM_byte s (next_offset s + 7) \<noteq> MODEM_RECORD_COMPLETE"
  shows "fst (getNextCompletedRecord s) = - 1 \<and>
         modemRecordIndex (snd (getNextCompletedRecord s)) = modemRecordIndex s"
  using assms by (simp add: getNextCompletedRecord_eq)

theorem getNextCompletedRecord_failure_keeps_cursor_witness:
  "EEPROM_byte (blank_store 16) (next_offset (blank_store 16) + 7) \<noteq> MODEM_RECORD_COMPLETE \<and>
   fst (getNextCompletedRecord (blank_store 16)) = - 1 \<and>
   modemRecordIndex (snd (getNextCompletedRecord (blank_store 16))) =
     modemRecordIndex (blank_store 16)"
proof -
  have h: "EEPROM_byte (blank_store 16) (next_offset (blank_store 16) + 7) \<noteq> MODEM_RECORD_COMPLETE"
    by (simp add: eval_defs next_offset_def)
  show ?thesis
    using h getNextCompletedRecord_failure_keeps_cursor[OF h] by simp
qed

text \<open>
  The claim as stated fails on a blank 16-byte EEPROM with the cursor at 0: the next slot,
  at offset 8, is unused, the call returns -1, and the cursor is 0 afterwards, not 8.
\<close>

theorem getNextCompletedRecord_cursor_counterexample:
  "next_offset (blank_store 16) = 8 \<and>
   EEPROM_byte (blank_store 16) (next_offset (blank_store 16) + 7) \<noteq> MODEM_RECORD_COMPLETE \<and>
   fst (getNextCompletedRecord (blank_store 16)) = - 1 \<and>
   modemRecordIndex (snd (getNextCompletedRecord (blank_store 16))) = 0 \<and>
   int (modemRecordIndex (snd (getNextCompletedRecord (blank_store 16)))) \<noteq>
     next_offset (blank_store 16)"
  by (simp add: eval_defs next_offset_def)

subsection \<open>getNewestCompletedRecord on a ring without a completed record\<close>

declare getNewestCompletedRecord_loop1.simps [simp del]

declare getNewestCompletedRecord_loop2.simps [simp del]

lemma slots_with_empty:
  "length mem = 8 * N \<Longrightarrow> slots_with f mem = [] \<longleftrightarrow> (\<forall>k<N. slot_flag mem k \<noteq> f)"
  by (auto simp: slots_with_def filter_empty_conv)

lemma getNewestCompletedRecord_no_complete:
  assumes L: "length (eeprom s) = 8 * N" and N: "0 < N"
    and none: "slots_with MODEM_RECORD_COMPLETE (eeprom s) = []"
  shows "getNewestCompletedRecord s = (0, s\<lparr>modemRecordIndex := 0, gets := gets s + 2\<rparr>)"
proof -
  have nc: "\<forall>k<N. slot_flag (eeprom s) k \<noteq> MODEM_RECORD_COMPLETE"
    using none slots_with_empty[OF L] by simp
  have b0: "EEPROM_byte s 7 \<noteq> MODEM_RECORD_COMPLETE"
    using nc N EEPROM_byte_flag[OF L, of 0 7] by simp
  let ?s = "s\<lparr>modemRecordIndex := 0, gets := gets s + 1\<rparr>"
  have b1: "EEPROM_byte ?s (next_offset ?s + 7) \<noteq> MODEM_RECORD_COMPLETE"
  proof (cases "N = 1")
    case True
    then show ?thesis using b0 L by (simp add: next_offset_def EEPROM_length_def)
  next
    case False
    with N have "1 < N" by simp
    then show ?thesis
      using nc L EEPROM_byte_flag[OF L, of 1 15]
      by (simp add: next_offset_def EEPROM_length_def)
  qed
  have "0 \<le> int N" by simp
  then show ?thesis
    using b0 b1 L
    by (simp add: getNewestCompletedRecord_def getNewestCompletedRecord_loop1.simps[of _ 0]
          getIndexOfNextCompletedRecord_eq EEPROM_get_def EEPROM_length_def Let_def)
qed

text \<open>
  C6. With exactly one slot in progress and no completed record,
  \<^verbatim>\<open>getNewestCompletedRecord\<close> is claimed to return the offset of the slot in
  progress. The code does not do so: on a 16-byte EEPROM whose second slot (offset 8) is
  the only slot in progress and which holds no completed record, it returns 0 and leaves
  the cursor at 0. That is neither the offset 8 of the slot in progress nor the -1 that
  the method's header comment promises when no record exists: the
  \<^verbatim>\<open>return -1\<close> after the first loop is never reached, because the loop returns the
  cursor as soon as the step forward fails.
\<close>

theorem getNewestCompletedRecord_at_in_progress_at_8:
  "ring_ok (eeprom in_progress_at_8) \<and>
   slots_with MODEM_RECORD_IN_PROGRESS (eeprom in_progress_at_8) = [1] \<and>
   slots_with MODEM_RECORD_COMPLETE (eeprom in_progress_at_8) = [] \<and>
   fst (getNewestCompletedRecord in_progress_at_8) = 0 \<and>
   modemRecordIndex (snd (getNewestCompletedRecord in_progress_at_8)) = 0 \<and>
   fst (getNewestCompletedRecord in_progress_at_8) \<noteq> 8 \<and>
   fst (getNewestCompletedRecord in_progress_at_8) \<noteq> - 1"
  by (simp add: in_progress_at_8_def eval_defs getNewestCompletedRecord_def
        getNewestCompletedRecord_loop1.simps getNewestCompletedRecord_loop2.simps
        cong: let_weak_cong)

subsection \<open>completeLogEntry without a record in progress\<close>

lemma in_progress_slot_none:
  assumes "slots_with MODEM_RECORD_IN_PROGRESS mem = []"
  shows "in_progress_slot mem = 0"
proof -
  have "first_slot_with MODEM_RECORD_IN_PROGRESS mem = None"
    unfolding first_slot_with_def find_None_iff
    using assms by (auto simp: slots_with_def filter_empty_conv)
  then show ?thesis by (simp add: in_progress_slot_def)
qed

lemma nth_apply_slot_writes_other:
  assumes "a + 7 < b \<or> b + 7 < a" "r \<le> 7"
  shows "apply_writes (slot_writes b blk d2 d1 fl) mem ! (a + r) = mem ! (a + r)"
  using assms by (auto simp: apply_writes_def slot_writes_def)

lemma nth_apply_slot_writes_same:
  assumes "a + 7 < length mem"
  shows "apply_writes (slot_writes a blk d2 d1 fl) mem ! a = secsSince1900_4 blk"
    "apply_writes (slot_writes a blk d2 d1 fl) mem ! (a + 1) = secsSince1900_3 blk"
    "apply_writes (slot_writes a blk d2 d1 fl) mem ! (a + 2) = secsSince1900_2 blk"
    "apply_writes (slot_writes a blk d2 d1 fl) mem ! (a + 3) = secsSince1900_1 blk"
    "apply_writes (slot_writes a blk d2 d1 fl) mem ! (a + 4) = d2"
    "apply_writes (slot_writes a blk d2 d1 fl) mem ! (a + 5) = d1"
    "apply_writes (slot_writes a blk d2 d1 fl) mem ! (a + 6) = mem ! (a + 6)"
    "apply_writes (slot_writes a blk d2 d1 fl) mem ! (a + 7) = fl"
  using assms by (simp_all add: apply_writes_def slot_writes_def)

text \<open>
  C5. On a ring whose length is a positive multiple of the slot size and in which no
  slot's flags byte is \<open>MODEM_RECORD_IN_PROGRESS\<close>, \<^verbatim>\<open>completeLogEntry\<close> seals
  slot 0: its first seven \<^verbatim>\<open>EEPROM.update\<close> calls store the staging block's
  timestamp and minutes at offsets 0 to 5 and then \<open>MODEM_RECORD_COMPLETE\<close> at offset 7;
  and when the ring has a second slot to take the new record in progress, slot 0 holds
  that payload and that flag when the call returns. (The scan that finds no slot in
  progress ends with the cursor back at offset 0.)
\<close>

theorem completeLogEntry_defaults_to_slot_0:
  assumes "ring_ok (eeprom s)"
    and "slots_with MODEM_RECORD_IN_PROGRESS (eeprom s) = []"
  shows "take 7 (drop (length (updates s)) (updates (completeLogEntry s))) =
           [(0, secsSince1900_4 (EEPROMBlock s)), (1, secsSince1900_3 (EEPROMBlock s)),
            (2, secsSince1900_2 (EEPROMBlock s)), (3, secsSince1900_1 (EEPROMBlock s)),
            (4, downMins2 (EEPROMBlock s)), (5, downMins1 (EEPROMBlock s)),
            (7, MODEM_RECORD_COMPLETE)] \<and>
         (16 \<le> length (eeprom s) \<longrightarrow>
            eeprom (completeLogEntry s) ! 0 = secsSince1900_4 (EEPROMBlock s) \<and>
            eeprom (completeLogEntry s) ! 1 = secsSince1900_3 (EEPROMBlock s) \<and>
            eeprom (completeLogEntry s) ! 2 = secsSince1900_2 (EEPROMBlock s) \<and>
            eeprom (completeLogEntry s) ! 3 = secsSince1900_1 (EEPROMBlock s) \<and>
            eeprom (completeLogEntry s) ! 4 = downMins2 (EEPROMBlock s) \<and>
            eeprom (completeLogEntry s) ! 5 = downMins1 (EEPROMBlock s) \<and>
            eeprom (completeLogEntry s) ! 7 = MODEM_RECORD_COMPLETE)"
proof -
  from assms(1) obtain N where L: "length (eeprom s) = 8 * N" and N: "0 < N"
    using ring_okD by blast
  have ja: "in_progress_slot (eeprom s) = 0"
    using assms(2) by (rule in_progress_slot_none)
  note eq = completeLogEntry_eq[OF L N refl refl, unfolded ja]
  have tr: "take 7 (drop (length (updates s)) (updates (completeLogEntry s))) =
           [(0, secsSince1900_4 (EEPROMBlock s)), (1, secsSince1900_3 (EEPROMBlock s)),
            (2, secsSince1900_2 (EEPROMBlock s)), (3, secsSince1900_1 (EEPROMBlock s)),
            (4, downMins2 (EEPROMBlock s)), (5, downMins1 (EEPROMBlock s)),
            (7, MODEM_RECORD_COMPLETE)]"
    by (simp add: eq slot_writes_def)
  have mem: "eeprom (completeLogEntry s) ! 0 = secsSince1900_4 (EEPROMBlock s) \<and>
            eeprom (completeLogEntry s) ! 1 = secsSince1900_3 (EEPROMBlock s) \<and>
            eeprom (completeLogEntry s) ! 2 = secsSince1900_2 (EEPROMBlock s) \<and>
            eeprom (completeLogEntry s) ! 3 = secsSince1900_1 (EEPROMBlock s) \<and>
            eeprom (completeLogEntry s) ! 4 = downMins2 (EEPROMBlock s) \<and>
            eeprom (completeLogEntry s) ! 5 = downMins1 (EEPROMBlock s) \<and>
            eeprom (completeLogEntry s) ! 7 = MODEM_RECORD_COMPLETE"
    if "16 \<le> length (eeprom s)"
  proof -
    from that L have N2: "1 < N" by simp
    have len: "0 + 7 < length (eeprom s)" using that by simp
    then have ne: "eeprom s \<noteq> []" by auto
    let ?m1 = "apply_writes (slot_writes 0 (EEPROMBlock s) (downMins2 (EEPROMBlock s))
                    (downMins1 (EEPROMBlock s)) MODEM_RECORD_COMPLETE) (eeprom s)"
    have e: "eeprom (completeLogEntry s) =
       apply_writes (slot_writes 8 (EEPROMBlock s) 0 0 MODEM_RECORD_IN_PROGRESS) ?m1"
      using N2 by (simp add: eq apply_writes_append)
    have same: "eeprom (completeLogEntry s) ! r = ?m1 ! r" if "r \<le> 7" for r
      using nth_apply_slot_writes_other[of 0 8 r _ _ _ _ ?m1] that unfolding e by simp
    have "?m1 ! 0 = secsSince1900_4 (EEPROMBlock s)" "?m1 ! 1 = secsSince1900_3 (EEPROMBlock s)"
      "?m1 ! 2 = secsSince1900_2 (EEPROMBlock s)" "?m1 ! 3 = secsSince1900_1 (EEPROMBlock s)"
      "?m1 ! 4 = downMins2 (EEPROMBlock s)" "?m1 ! 5 = downMins1 (EEPROMBlock s)"
      "?m1 ! 7 = MODEM_RECORD_COMPLETE"
      using len ne by (simp_all add: apply_writes_def slot_writes_def nth_list_update)
    then show ?thesis
      by (simp add: same)
  qed
  show ?thesis using tr mem by blast
qed

theorem completeLogEntry_defaults_to_slot_0_witness:
  "ring_ok (eeprom two_completed) \<and>
   slots_with MODEM_RECORD_IN_PROGRESS (eeprom two_completed) = [] \<and>
   take 7 (drop (length (updates two_completed)) (updates (completeLogEntry two_completed))) =
     [(0, 1), (1, 2), (2, 3), (3, 4), (4, 5), (5, 6), (7, MODEM_RECORD_COMPLETE)] \<and>
   eeprom (completeLogEntry two_completed) ! 0 = 1 \<and>
   eeprom (completeLogEntry two_completed) ! 5 = 6 \<and>
   eeprom (completeLogEntry two_completed) ! 7 = MODEM_RECORD_COMPLETE"
proof -
  have h1: "ring_ok (eeprom two_completed)"
    by (simp add: two_completed_def eval_defs)
  have h2: "slots_with MODEM_RECORD_IN_PROGRESS (eeprom two_completed) = []"
    by (simp add: two_completed_def eval_defs)
  have h3: "16 \<le> length (eeprom two_completed)"
    by (simp add: two_completed_def eval_defs)
  have b: "EEPROMBlock two_completed = \<lparr>secsSince1900_4 = 1, secsSince1900_3 = 2, secsSince1900_2 = 3,
        secsSince1900_1 = 4, downMins2 = 5, downMins1 = 6, spare = 0, flags = 1\<rparr>"
    by (simp add: two_completed_def eval_defs)
  show ?thesis
    using h1 h2 h3 completeLogEntry_defaults_to_slot_0[OF h1 h2] by (simp add: b)
qed

subsection \<open>clearLog\<close>

declare clearLog_loop.simps [simp del]

lemma clearLog_loop_eq:
  assumes "L = length (eeprom s)" "i \<le> L" "d = L - i"
  shows "clearLog_loop (int i) s =
           s\<lparr>eeprom := take i (eeprom s) @ replicate d MODEM_RECORD_UNUSED,
             updates := updates s @ map (\<lambda>a. (a, MODEM_RECORD_UNUSED)) [i..<L]\<rparr>"
  using assms
proof (induction d arbitrary: i s)
  case 0
  then have "i = length (eeprom s)" by simp
  then show ?case
    using 0 by (subst clearLog_loop.simps) (simp add: EEPROM_length_def)
next
  case (Suc d)
  then have i: "i < length (eeprom s)" by simp
  let ?s = "EEPROM_update i MODEM_RECORD_UNUSED s"
  have step: "clearLog_loop (int i) s = clearLog_loop (int (Suc i)) ?s"
    using i by (subst clearLog_loop.simps) (simp add: EEPROM_length_def add.commute)
  have len: "length (eeprom ?s) = L" using Suc.prems by (simp add: EEPROM_update_def)
  have ih: "clearLog_loop (int (Suc i)) ?s =
           ?s\<lparr>eeprom := take (Suc i) (eeprom ?s) @ replicate d MODEM_RECORD_UNUSED,
             updates := updates ?s @ map (\<lambda>a. (a, MODEM_RECORD_UNUSED)) [Suc i..<L]\<rparr>"
    using Suc.prems len by (intro Suc.IH) auto
  have t: "take (Suc i) ((eeprom s)[i := MODEM_RECORD_UNUSED]) = take i (eeprom s) @ [MODEM_RECORD_UNUSED]"
    using i by (simp add: take_Suc_conv_app_nth)
  have u: "[i..<L] = i # [Suc i..<L]"
    using i Suc.prems by (simp add: upt_conv_Cons)
  show ?case
    unfolding step ih by (simp add: EEPROM_update_def t u)
qed

lemma clearLog_eq:
  assumes "L = length (eeprom s)" "c = modemRecordIndex s"
    and "ws = slot_writes c (EEPROMBlock s) (downMins2 (EEPROMBlock s))
                (downMins1 (EEPROMBlock s)) MODEM_RECORD_IN_PROGRESS"
  shows "clearLog s =
           s\<lparr>eeprom := apply_writes ws (replicate L MODEM_RECORD_UNUSED),
             updates := updates s @ map (\<lambda>a. (a, MODEM_RECORD_UNUSED)) [0..<L] @ ws\<rparr>"
proof -
  have loop: "clearLog_loop 0 s =
      s\<lparr>eeprom := replicate L MODEM_RECORD_UNUSED,
        updates := updates s @ map (\<lambda>a. (a, MODEM_RECORD_UNUSED)) [0..<L]\<rparr>"
    using clearLog_loop_eq[of L s 0 L] assms(1) by simp
  show ?thesis
    unfolding clearLog_def loop
    by (simp add: Let_def assms EEPROM_update_def slot_writes_def apply_writes_def cong: let_weak_cong)
qed

lemma cursor_okD:
  "cursor_ok s \<Longrightarrow> length (eeprom s) = 8 * N \<Longrightarrow>
     \<exists>j<N. modemRecordIndex s = 8 * j"
  unfolding cursor_ok_def by (metis mod_0_imp_dvd dvd_def nat_mult_less_cancel1 zero_less_numeral)

text \<open>
  C8. For every EEPROM content whose length is a positive multiple of the slot size and
  every cursor that is the offset of a slot (the only values the class ever gives its
  cursor, see \<open>cursor_ok\<close>), \<^verbatim>\<open>clearLog\<close> followed by
  \<^verbatim>\<open>getRecordInProgress\<close> succeeds: the scan returns the offset the cursor held
  before \<^verbatim>\<open>clearLog\<close> and leaves the cursor there.
\<close>

theorem clearLog_then_getRecordInProgress:
  assumes "ring_ok (eeprom s)" and "cursor_ok s"
  shows "fst (getRecordInProgress (clearLog s)) = int (modemRecordIndex s) \<and>
         modemRecordIndex (snd (getRecordInProgress (clearLog s))) = modemRecordIndex s"
proof -
  from assms(1) obtain N where L: "length (eeprom s) = 8 * N" and N: "0 < N"
    using ring_okD by blast
  from cursor_okD[OF assms(2) L] obtain j where j: "j < N" "modemRecordIndex s = 8 * j"
    by blast
  let ?ws = "slot_writes (8 * j) (EEPROMBlock s) (downMins2 (EEPROMBlock s))
                (downMins1 (EEPROMBlock s)) MODEM_RECORD_IN_PROGRESS"
  let ?blank = "replicate (8 * N) MODEM_RECORD_UNUSED"
  have eq: "clearLog s =
           s\<lparr>eeprom := apply_writes ?ws ?blank,
             updates := updates s @ map (\<lambda>a. (a, MODEM_RECORD_UNUSED)) [0..<8 * N] @ ?ws\<rparr>"
    using clearLog_eq[OF L[symmetric] j(2)[symmetric] refl] .
  have L': "length (eeprom (clearLog s)) = 8 * N" unfolding eq by simp
  have fl: "slot_flag (eeprom (clearLog s)) k =
      (if k = j then MODEM_RECORD_IN_PROGRESS else MODEM_RECORD_UNUSED)" if "k < N" for k
    using slot_end_less[OF j(1)] slot_end_less[OF that] unfolding eq
    by (simp add: slot_flag_slot_writes) (simp add: slot_flag_def)
  have "first_slot_with MODEM_RECORD_IN_PROGRESS (eeprom (clearLog s)) = Some j"
    unfolding first_slot_with_Some[OF L'] using j(1) fl by (simp add: flag_consts)
  from getRecordInProgress_found[OF L' this] show ?thesis
    by (simp add: j(2) eq)
qed

theorem clearLog_then_getRecordInProgress_witness:
  "ring_ok (eeprom ((blank_store 24)\<lparr>modemRecordIndex := 16\<rparr>)) \<and>
   cursor_ok ((blank_store 24)\<lparr>modemRecordIndex := 16\<rparr>) \<and>
   fst (getRecordInProgress (clearLog ((blank_store 24)\<lparr>modemRecordIndex := 16\<rparr>))) = 16 \<and>
   modemRecordIndex (snd (getRecordInProgress (clearLog ((blank_store 24)\<lparr>modemRecordIndex := 16\<rparr>)))) = 16"
proof -
  have h1: "ring_ok (eeprom ((blank_store 24)\<lparr>modemRecordIndex := 16\<rparr>))"
    by (simp add: eval_defs)
  have h2: "cursor_ok ((blank_store 24)\<lparr>modemRecordIndex := 16\<rparr>)"
    by (simp add: eval_defs)
  show ?thesis
    using h1 h2 clearLog_then_getRecordInProgress[OF h1 h2] by simp
qed

subsection \<open>getOldestCompletedRecord\<close>

declare getOldestCompletedRecord_loop1.simps [simp del]

declare getOldestCompletedRecord_loop2.simps [simp del]

lemma oldest_loop1_stop:
  "flg = MODEM_RECORD_IN_PROGRESS \<or> n < c \<Longrightarrow>
     getOldestCompletedRecord_loop1 n c i flg s = (Inr (i, flg), s)"
  by (subst getOldestCompletedRecord_loop1.simps) auto

lemma oldest_loop1_return:
  "flg \<noteq> MODEM_RECORD_IN_PROGRESS \<Longrightarrow> c \<le> n \<Longrightarrow> EEPROM_length s \<le> i + 8 + 7 \<Longrightarrow>
     getOldestCompletedRecord_loop1 n c i flg s = (Inl (- 1), s\<lparr>modemRecordIndex := nat i\<rparr>)"
  by (subst getOldestCompletedRecord_loop1.simps) (simp add: Let_def)

lemma oldest_loop1_step:
  "flg \<noteq> MODEM_RECORD_IN_PROGRESS \<Longrightarrow> c \<le> n \<Longrightarrow> \<not> EEPROM_length s \<le> i + 8 + 7 \<Longrightarrow>
     getOldestCompletedRecord_loop1 n c i flg s =
       getOldestCompletedRecord_loop1 n c (i + 8) (EEPROM_byte s (i + 8 + 7))
         (s\<lparr>modemRecordIndex := nat i, gets := gets s + 1\<rparr>)"
  by (subst getOldestCompletedRecord_loop1.simps) (simp add: Let_def EEPROM_get_def)

lemma oldest_loop2_stop:
  "flg = MODEM_RECORD_COMPLETE \<or> n < c \<Longrightarrow>
     getOldestCompletedRecord_loop2 n i flg c s = ((i, flg, c), s)"
  by (subst getOldestCompletedRecord_loop2.simps) auto

lemma oldest_loop2_step:
  assumes "flg \<noteq> MODEM_RECORD_COMPLETE" "c \<le> n"
    and "i' = (if i + 8 \<ge> EEPROM_length s then 0 else i + 8)"
  shows "getOldestCompletedRecord_loop2 n i flg c s =
         getOldestCompletedRecord_loop2 n i' (EEPROM_byte s (i' + 7)) (c + 1)
           (s\<lparr>gets := gets s + 1\<rparr>)"
  using assms by (subst getOldestCompletedRecord_loop2.simps) (simp add: EEPROM_get_def Let_def)

text \<open>First loop of getOldestCompletedRecord: a slot in progress lies ahead.\<close>

lemma oldest_loop1_found:
  assumes "length (eeprom s) = 8 * N"
    and "j0 - j = d" "j \<le> j0" "j0 < N"
    and "\<forall>k. j \<le> k \<and> k < j0 \<longrightarrow> slot_flag (eeprom s) k \<noteq> MODEM_RECORD_IN_PROGRESS"
    and "slot_flag (eeprom s) j0 = MODEM_RECORD_IN_PROGRESS"
    and "flg = slot_flag (eeprom s) j"
    and "c \<le> n"
  shows "getOldestCompletedRecord_loop1 n c (8 * int j) flg s =
           (Inr (8 * int j0, MODEM_RECORD_IN_PROGRESS),
            s\<lparr>modemRecordIndex := (if d = 0 then modemRecordIndex s else 8 * (j0 - 1)),
              gets := gets s + d\<rparr>)"
  using assms
proof (induction d arbitrary: j flg s)
  case 0
  then have "j = j0" by simp
  with 0 show ?case
    by (simp add: oldest_loop1_stop)
next
  case (Suc d)
  then have jlt: "j < j0" and flg: "flg \<noteq> MODEM_RECORD_IN_PROGRESS"
    by auto
  let ?s = "s\<lparr>modemRecordIndex := nat (8 * int j), gets := gets s + 1\<rparr>"
  have go: "\<not> EEPROM_length s \<le> 8 * int j + 8 + 7"
    using jlt Suc.prems(1,4) by (simp add: EEPROM_length_def)
  have i': "8 * int j + 8 = 8 * int (Suc j)" by simp
  have b: "EEPROM_byte s (8 * int (Suc j) + 7) = slot_flag (eeprom s) (Suc j)"
    using jlt Suc.prems(1,4) by (intro EEPROM_byte_flag[of _ N]) auto
  have step: "getOldestCompletedRecord_loop1 n c (8 * int j) flg s =
     getOldestCompletedRecord_loop1 n c (8 * int (Suc j)) (slot_flag (eeprom s) (Suc j)) ?s"
    using oldest_loop1_step[OF flg Suc.prems(8) go] b unfolding i' by simp
  have "getOldestCompletedRecord_loop1 n c (8 * int (Suc j)) (slot_flag (eeprom s) (Suc j)) ?s =
      (Inr (8 * int j0, MODEM_RECORD_IN_PROGRESS),
            ?s\<lparr>modemRecordIndex := (if d = 0 then modemRecordIndex ?s else 8 * (j0 - 1)),
              gets := gets ?s + d\<rparr>)"
    using Suc.prems jlt by (intro Suc.IH) auto
  with step show ?case using Suc.prems(2) jlt by (auto simp: nat_mult_distrib)
qed

text \<open>First loop of getOldestCompletedRecord: no slot in progress from here on.\<close>

lemma oldest_loop1_not_found:
  assumes "length (eeprom s) = 8 * N"
    and "j < N" "d = N - 1 - j"
    and "\<forall>k. j \<le> k \<and> k < N \<longrightarrow> slot_flag (eeprom s) k \<noteq> MODEM_RECORD_IN_PROGRESS"
    and "flg = slot_flag (eeprom s) j"
    and "c \<le> n"
  shows "getOldestCompletedRecord_loop1 n c (8 * int j) flg s =
           (Inl (- 1), s\<lparr>modemRecordIndex := 8 * (N - 1), gets := gets s + d\<rparr>)"
  using assms
proof (induction d arbitrary: j flg s)
  case 0
  then have j: "Suc j = N" and flg: "flg \<noteq> MODEM_RECORD_IN_PROGRESS" by auto
  have stop: "EEPROM_length s \<le> 8 * int j + 8 + 7"
    using j "0.prems"(1) by (auto simp: EEPROM_length_def)
  show ?case
    using oldest_loop1_return[OF flg "0.prems"(6) stop] j by (auto simp: nat_mult_distrib)
next
  case (Suc d)
  then have jlt: "Suc j < N" and flg: "flg \<noteq> MODEM_RECORD_IN_PROGRESS"
    by auto
  let ?s = "s\<lparr>modemRecordIndex := nat (8 * int j), gets := gets s + 1\<rparr>"
  have go: "\<not> EEPROM_length s \<le> 8 * int j + 8 + 7"
    using jlt Suc.prems(1) by (simp add: EEPROM_length_def)
  have i': "8 * int j + 8 = 8 * int (Suc j)" by simp
  have b: "EEPROM_byte s (8 * int (Suc j) + 7) = slot_flag (eeprom s) (Suc j)"
    using jlt Suc.prems(1) by (intro EEPROM_byte_flag[of _ N]) auto
  have step: "getOldestCompletedRecord_loop1 n c (8 * int j) flg s =
     getOldestCompletedRecord_loop1 n c (8 * int (Suc j)) (slot_flag (eeprom s) (Suc j)) ?s"
    using oldest_loop1_step[OF flg Suc.prems(6) go] b unfolding i' by simp
  have "getOldestCompletedRecord_loop1 n c (8 * int (Suc j)) (slot_flag (eeprom s) (Suc j)) ?s =
      (Inl (- 1), ?s\<lparr>modemRecordIndex := 8 * (N - 1), gets := gets ?s + d\<rparr>)"
    using Suc.prems jlt by (intro Suc.IH) auto
  with step show ?case by simp
qed

lemma next_slot_offset:
  assumes "length (eeprom s) = 8 * N" "j < N"
  shows "8 * int (Suc j mod N) = (if 8 * int j + 8 \<ge> EEPROM_length s then 0 else 8 * int j + 8)"
proof (cases "Suc j = N")
  case True
  then show ?thesis using assms by (simp add: EEPROM_length_def)
next
  case False
  with assms(2) have "Suc j < N" by simp
  then show ?thesis using assms by (simp add: EEPROM_length_def)
qed

text \<open>Second loop of getOldestCompletedRecord: a completed slot lies \<open>m\<close> steps ahead.\<close>

lemma oldest_loop2_found:
  assumes L: "length mem = 8 * N" and N: "0 < N"
    and "eeprom s = mem" "j < N" "flg = slot_flag mem j"
    and "\<forall>t<m. slot_flag mem ((j + t) mod N) \<noteq> MODEM_RECORD_COMPLETE"
    and "slot_flag mem ((j + m) mod N) = MODEM_RECORD_COMPLETE"
    and "c + int m \<le> n + 1"
  shows "getOldestCompletedRecord_loop2 n (8 * int j) flg c s =
           ((8 * int ((j + m) mod N), MODEM_RECORD_COMPLETE, c + int m),
            s\<lparr>gets := gets s + m\<rparr>)"
  using assms(3-)
proof (induction m arbitrary: j flg c s)
  case 0
  then show ?case by (simp add: oldest_loop2_stop)
next
  case (Suc m)
  have flg: "flg \<noteq> MODEM_RECORD_COMPLETE"
    using Suc.prems(2,3,4) by (metis mod_less add_0_right zero_less_Suc)
  have c: "c \<le> n" using Suc.prems(6) by simp
  let ?j' = "Suc j mod N"
  let ?s = "s\<lparr>gets := gets s + 1\<rparr>"
  have Ls: "length (eeprom s) = 8 * N" using L Suc.prems(1) by simp
  have j': "?j' < N" using N by simp
  have b: "EEPROM_byte s (8 * int ?j' + 7) = slot_flag mem ?j'"
    using j' Ls Suc.prems(1) EEPROM_byte_flag[of s N ?j'] by simp
  have step: "getOldestCompletedRecord_loop2 n (8 * int j) flg c s =
     getOldestCompletedRecord_loop2 n (8 * int ?j') (slot_flag mem ?j') (c + 1) ?s"
    using oldest_loop2_step[OF flg c next_slot_offset[OF Ls Suc.prems(2)]] b by simp
  have shift: "(?j' + t) mod N = (j + Suc t) mod N" for t
    by (simp add: mod_simps)
  have "getOldestCompletedRecord_loop2 n (8 * int ?j') (slot_flag mem ?j') (c + 1) ?s =
      ((8 * int ((?j' + m) mod N), MODEM_RECORD_COMPLETE, (c + 1) + int m),
            ?s\<lparr>gets := gets ?s + m\<rparr>)"
  proof (intro Suc.IH)
    show "\<forall>t<m. slot_flag mem ((?j' + t) mod N) \<noteq> MODEM_RECORD_COMPLETE"
      unfolding shift using Suc.prems(4) by auto
    show "slot_flag mem ((?j' + m) mod N) = MODEM_RECORD_COMPLETE"
      unfolding shift using Suc.prems(5) by simp
  qed (use Suc.prems j' in auto)
  then show ?case unfolding step shift by simp
qed

text \<open>Second loop of getOldestCompletedRecord: no completed slot anywhere.\<close>

lemma oldest_loop2_not_found:
  assumes L: "length mem = 8 * N" and N: "0 < N"
    and none: "\<forall>k<N. slot_flag mem k \<noteq> MODEM_RECORD_COMPLETE"
    and "eeprom s = mem" "j < N" "flg = slot_flag mem j" "c \<le> n + 1" "m = nat (n + 1 - c)"
  shows "getOldestCompletedRecord_loop2 n (8 * int j) flg c s =
           ((8 * int ((j + m) mod N), slot_flag mem ((j + m) mod N), n + 1),
            s\<lparr>gets := gets s + m\<rparr>)"
  using assms(4-)
proof (induction m arbitrary: j flg c s)
  case 0
  then have "c = n + 1" by simp
  with 0 show ?case
    by (simp add: oldest_loop2_stop)
next
  case (Suc m)
  then have c: "c \<le> n" and flg: "flg \<noteq> MODEM_RECORD_COMPLETE"
    using none by auto
  let ?j' = "Suc j mod N"
  let ?s = "s\<lparr>gets := gets s + 1\<rparr>"
  have Ls: "length (eeprom s) = 8 * N" using L Suc.prems(1) by simp
  have j': "?j' < N" using N by simp
  have b: "EEPROM_byte s (8 * int ?j' + 7) = slot_flag mem ?j'"
    using j' Ls Suc.prems(1) EEPROM_byte_flag[of s N ?j'] by simp
  have step: "getOldestCompletedRecord_loop2 n (8 * int j) flg c s =
     getOldestCompletedRecord_loop2 n (8 * int ?j') (slot_flag mem ?j') (c + 1) ?s"
    using oldest_loop2_step[OF flg c next_slot_offset[OF Ls Suc.prems(2)]] b by simp
  have shift: "(?j' + t) mod N = (j + Suc t) mod N" for t
    by (simp add: mod_simps)
  have "getOldestCompletedRecord_loop2 n (8 * int ?j') (slot_flag mem ?j') (c + 1) ?s =
      ((8 * int ((?j' + m) mod N), slot_flag mem ((?j' + m) mod N), n + 1),
            ?s\<lparr>gets := gets ?s + m\<rparr>)"
    using Suc.prems j' by (intro Suc.IH) auto
  then show ?case unfolding step shift by simp
qed

text \<open>
  The number of steps forward, with wrap-around, from slot \<open>j\<close> to the first slot
  flagged \<open>MODEM_RECORD_COMPLETE\<close>.
\<close>

lemma steps_to_complete_Some:
  "length mem = 8 * N \<Longrightarrow> steps_to_complete mem j = Some m \<longleftrightarrow>
     m < N \<and> slot_flag mem ((j + m) mod N) = MODEM_RECORD_COMPLETE \<and>
     (\<forall>t<m. slot_flag mem ((j + t) mod N) \<noteq> MODEM_RECORD_COMPLETE)"
  by (auto simp: steps_to_complete_def find_Some_iff)

lemma steps_to_complete_None:
  assumes "length mem = 8 * N" "0 < N" "j < N"
  shows "steps_to_complete mem j = None \<longleftrightarrow> (\<forall>k<N. slot_flag mem k \<noteq> MODEM_RECORD_COMPLETE)"
proof
  assume none: "steps_to_complete mem j = None"
  show "\<forall>k<N. slot_flag mem k \<noteq> MODEM_RECORD_COMPLETE"
  proof (intro allI impI)
    fix k assume k: "k < N"
    let ?m = "(k + N - j) mod N"
    have "?m < N" using assms(2) by simp
    moreover have "(j + ?m) mod N = k"
      using k assms(3) by (simp add: mod_simps)
    ultimately show "slot_flag mem k \<noteq> MODEM_RECORD_COMPLETE"
      using none assms(1) by (auto simp: steps_to_complete_def find_None_iff)
  qed
next
  assume "\<forall>k<N. slot_flag mem k \<noteq> MODEM_RECORD_COMPLETE"
  then show "steps_to_complete mem j = None"
    using assms(1,2) by (auto simp: steps_to_complete_def find_None_iff)
qed

lemma getOldestCompletedRecord_eq:
  assumes L: "length (eeprom s) = 8 * N" and N: "0 < N"
  shows "getOldestCompletedRecord count0 s =
     (if count0 > int N then (- 1, s\<lparr>gets := gets s + 1\<rparr>)
      else case first_slot_with MODEM_RECORD_IN_PROGRESS (eeprom s) of
        None \<Rightarrow> (- 1, s\<lparr>modemRecordIndex := 8 * (N - 1), gets := gets s + N\<rparr>)
      | Some j0 \<Rightarrow>
          (case steps_to_complete (eeprom s) j0 of
             None \<Rightarrow> (- 1, s\<lparr>modemRecordIndex := (if j0 = 0 then modemRecordIndex s else 8 * (j0 - 1)),
                          gets := gets s + 1 + j0 + N\<rparr>)
           | Some m \<Rightarrow> (8 * int ((j0 + m) mod N),
                        s\<lparr>modemRecordIndex := 8 * ((j0 + m) mod N),
                          gets := gets s + 1 + j0 + m\<rparr>)))"
proof -
  let ?s = "s\<lparr>gets := gets s + 1\<rparr>"
  have EL: "EEPROM_length s div 8 = int N" using L by (simp add: EEPROM_length_def)
  have b0: "EEPROM_byte s 7 = slot_flag (eeprom s) 0"
    using N L EEPROM_byte_flag[of s N 0] by simp
  have unfold: "getOldestCompletedRecord count0 s =
      (case getOldestCompletedRecord_loop1 (int N) count0 (8 * int 0) (slot_flag (eeprom s) 0) ?s of
           (Inl r, s) \<Rightarrow> (r, s)
         | (Inr (i, flg), s) \<Rightarrow>
             if count0 > int N then (- 1, s)
             else (let count = 1;
                       ((i, flg, count), s) = getOldestCompletedRecord_loop2 (int N) i flg count s
                   in if count \<le> int N
                      then (let s = s\<lparr>modemRecordIndex := nat i\<rparr> in (int (modemRecordIndex s), s))
                      else (- 1, s)))"
    by (simp add: getOldestCompletedRecord_def EEPROM_get_def Let_def EL b0)
  show ?thesis
  proof (cases "count0 > int N")
    case True
    then show ?thesis
      unfolding unfold by (simp add: oldest_loop1_stop)
  next
    case c0: False
    then have c0': "count0 \<le> int N" by simp
    show ?thesis
    proof (cases "first_slot_with MODEM_RECORD_IN_PROGRESS (eeprom s)")
      case None
      then have "\<forall>k<N. slot_flag (eeprom s) k \<noteq> MODEM_RECORD_IN_PROGRESS"
        using first_slot_with_None[OF L] by simp
      then have "getOldestCompletedRecord_loop1 (int N) count0 (8 * int 0) (slot_flag (eeprom s) 0) ?s =
           (Inl (- 1), ?s\<lparr>modemRecordIndex := 8 * (N - 1), gets := gets ?s + (N - 1 - 0)\<rparr>)"
        using L N c0' by (intro oldest_loop1_not_found[where N = N]) auto
      then show ?thesis
        unfolding unfold using None c0 N by simp
    next
      case (Some j0)
      then have j0: "j0 < N" "slot_flag (eeprom s) j0 = MODEM_RECORD_IN_PROGRESS"
        "\<forall>k<j0. slot_flag (eeprom s) k \<noteq> MODEM_RECORD_IN_PROGRESS"
        using first_slot_with_Some[OF L] by auto
      let ?s1 = "?s\<lparr>modemRecordIndex := (if j0 - 0 = 0 then modemRecordIndex ?s else 8 * (j0 - 1)),
              gets := gets ?s + (j0 - 0)\<rparr>"
      have l1: "getOldestCompletedRecord_loop1 (int N) count0 (8 * int 0) (slot_flag (eeprom s) 0) ?s =
           (Inr (8 * int j0, MODEM_RECORD_IN_PROGRESS), ?s1)"
        using L j0 c0' by (intro oldest_loop1_found[where N = N]) auto
      show ?thesis
      proof (cases "steps_to_complete (eeprom s) j0")
        case None
        then have nc: "\<forall>k<N. slot_flag (eeprom s) k \<noteq> MODEM_RECORD_COMPLETE"
          using steps_to_complete_None[OF L N j0(1)] by simp
        have "getOldestCompletedRecord_loop2 (int N) (8 * int j0) MODEM_RECORD_IN_PROGRESS 1 ?s1 =
           ((8 * int ((j0 + N) mod N), slot_flag (eeprom s) ((j0 + N) mod N), int N + 1),
            ?s1\<lparr>gets := gets ?s1 + N\<rparr>)"
          using L N nc j0 by (intro oldest_loop2_not_found[where N = N and mem = "eeprom s"]) auto
        then show ?thesis
          unfolding unfold l1 using None Some c0 by simp
      next
        case (Some m)
        then have m: "m < N" "slot_flag (eeprom s) ((j0 + m) mod N) = MODEM_RECORD_COMPLETE"
          "\<forall>t<m. slot_flag (eeprom s) ((j0 + t) mod N) \<noteq> MODEM_RECORD_COMPLETE"
          using steps_to_complete_Some[OF L] by auto
        have "getOldestCompletedRecord_loop2 (int N) (8 * int j0) MODEM_RECORD_IN_PROGRESS 1 ?s1 =
           ((8 * int ((j0 + m) mod N), MODEM_RECORD_COMPLETE, 1 + int m),
            ?s1\<lparr>gets := gets ?s1 + m\<rparr>)"
          using L N m j0 by (intro oldest_loop2_found[where N = N and mem = "eeprom s"]) auto
        then show ?thesis
          unfolding unfold l1 using Some \<open>first_slot_with MODEM_RECORD_IN_PROGRESS (eeprom s) = Some j0\<close> c0 m(1)
          by (simp add: nat_mult_distrib)
      qed
    qed
  qed
qed

subsection \<open>setEEPROMUptimeStats\<close>

declare setEEPROMUptimeStats_loop.simps [simp del]

lemma set_loop_stop:
  "flg = MODEM_RECORD_IN_PROGRESS \<or> \<not> int (modemRecordIndex s) + 7 < EL \<Longrightarrow>
     setEEPROMUptimeStats_loop EL flg s = (flg, s)"
  by (subst setEEPROMUptimeStats_loop.simps) auto

lemma set_loop_step:
  assumes "flg \<noteq> MODEM_RECORD_IN_PROGRESS" "int (modemRecordIndex s) + 7 < EL"
    and "int (modemRecordIndex s + 8) + 7 < EL"
  shows "setEEPROMUptimeStats_loop EL flg s =
           setEEPROMUptimeStats_loop EL (EEPROM_byte s (int (modemRecordIndex s + 8) + 7))
             (s\<lparr>modemRecordIndex := modemRecordIndex s + 8, gets := gets s + 1\<rparr>)"
  using assms by (subst setEEPROMUptimeStats_loop.simps) (simp add: Let_def EEPROM_get_def)

lemma set_loop_last:
  assumes "flg \<noteq> MODEM_RECORD_IN_PROGRESS" "int (modemRecordIndex s) + 7 < EL"
    and "\<not> int (modemRecordIndex s + 8) + 7 < EL"
  shows "setEEPROMUptimeStats_loop EL flg s = (flg, s\<lparr>modemRecordIndex := modemRecordIndex s + 8\<rparr>)"
proof -
  have "setEEPROMUptimeStats_loop EL flg s =
        setEEPROMUptimeStats_loop EL flg (s\<lparr>modemRecordIndex := modemRecordIndex s + 8\<rparr>)"
    using assms by (subst setEEPROMUptimeStats_loop.simps) (simp add: Let_def)
  also have "\<dots> = (flg, s\<lparr>modemRecordIndex := modemRecordIndex s + 8\<rparr>)"
    using assms(3) by (intro set_loop_stop) simp
  finally show ?thesis .
qed

lemma set_loop_found:
  assumes "length (eeprom s) = 8 * N"
    and "j0 - j = d" "j \<le> j0" "j0 < N"
    and "\<forall>k. j \<le> k \<and> k < j0 \<longrightarrow> slot_flag (eeprom s) k \<noteq> MODEM_RECORD_IN_PROGRESS"
    and "slot_flag (eeprom s) j0 = MODEM_RECORD_IN_PROGRESS"
    and "flg = slot_flag (eeprom s) j" "modemRecordIndex s = 8 * j"
  shows "setEEPROMUptimeStats_loop (int (8 * N)) flg s =
           (MODEM_RECORD_IN_PROGRESS, s\<lparr>modemRecordIndex := 8 * j0, gets := gets s + d\<rparr>)"
  using assms
proof (induction d arbitrary: j flg s)
  case 0
  then have "j = j0" by simp
  with 0 show ?case
    by (simp add: set_loop_stop)
next
  case (Suc d)
  then have jlt: "j < j0" and flg: "flg \<noteq> MODEM_RECORD_IN_PROGRESS"
    by auto
  let ?s = "s\<lparr>modemRecordIndex := modemRecordIndex s + 8, gets := gets s + 1\<rparr>"
  have in1: "int (modemRecordIndex s) + 7 < int (8 * N)"
    using jlt Suc.prems(4,8) by simp
  have in2: "int (modemRecordIndex s + 8) + 7 < int (8 * N)"
    using jlt Suc.prems(4,8) by simp
  have b: "EEPROM_byte s (int (modemRecordIndex s + 8) + 7) = slot_flag (eeprom s) (Suc j)"
    using jlt Suc.prems(1,4,8) by (intro EEPROM_byte_flag[of _ N]) auto
  have step: "setEEPROMUptimeStats_loop (int (8 * N)) flg s =
     setEEPROMUptimeStats_loop (int (8 * N)) (slot_flag (eeprom s) (Suc j)) ?s"
    using set_loop_step[OF flg in1 in2] b by simp
  have "setEEPROMUptimeStats_loop (int (8 * N)) (slot_flag (eeprom s) (Suc j)) ?s =
      (MODEM_RECORD_IN_PROGRESS, ?s\<lparr>modemRecordIndex := 8 * j0, gets := gets ?s + d\<rparr>)"
    using Suc.prems jlt by (intro Suc.IH) auto
  with step show ?case by simp
qed

lemma set_loop_not_found:
  assumes "length (eeprom s) = 8 * N"
    and "j < N" "d = N - 1 - j"
    and "\<forall>k. j \<le> k \<and> k < N \<longrightarrow> slot_flag (eeprom s) k \<noteq> MODEM_RECORD_IN_PROGRESS"
    and "flg = slot_flag (eeprom s) j" "modemRecordIndex s = 8 * j"
  shows "setEEPROMUptimeStats_loop (int (8 * N)) flg s =
           (slot_flag (eeprom s) (N - 1), s\<lparr>modemRecordIndex := 8 * N, gets := gets s + d\<rparr>)"
  using assms
proof (induction d arbitrary: j flg s)
  case 0
  then have j: "Suc j = N" and flg: "flg \<noteq> MODEM_RECORD_IN_PROGRESS" by auto
  have in1: "int (modemRecordIndex s) + 7 < int (8 * N)"
    using j "0.prems"(6) by auto
  have in2: "\<not> int (modemRecordIndex s + 8) + 7 < int (8 * N)"
    using j "0.prems"(6) by auto
  show ?case
    using set_loop_last[OF flg in1 in2] j "0.prems"(5,6) by auto
next
  case (Suc d)
  then have jlt: "Suc j < N" and flg: "flg \<noteq> MODEM_RECORD_IN_PROGRESS"
    by auto
  let ?s = "s\<lparr>modemRecordIndex := modemRecordIndex s + 8, gets := gets s + 1\<rparr>"
  have in1: "int (modemRecordIndex s) + 7 < int (8 * N)"
    using jlt Suc.prems(6) by simp
  have in2: "int (modemRecordIndex s + 8) + 7 < int (8 * N)"
    using jlt Suc.prems(6) by simp
  have b: "EEPROM_byte s (int (modemRecordIndex s + 8) + 7) = slot_flag (eeprom s) (Suc j)"
    using jlt Suc.prems(1,6) by (intro EEPROM_byte_flag[of _ N]) auto
  have step: "setEEPROMUptimeStats_loop (int (8 * N)) flg s =
     setEEPROMUptimeStats_loop (int (8 * N)) (slot_flag (eeprom s) (Suc j)) ?s"
    using set_loop_step[OF flg in1 in2] b by simp
  have "setEEPROMUptimeStats_loop (int (8 * N)) (slot_flag (eeprom s) (Suc j)) ?s =
      (slot_flag (eeprom ?s) (N - 1), ?s\<lparr>modemRecordIndex := 8 * N, gets := gets ?s + d\<rparr>)"
    using Suc.prems jlt by (intro Suc.IH) auto
  with step show ?case by simp
qed

lemma setEEPROMUptimeStats_eq:
  assumes L: "length (eeprom s) = 8 * N" and N: "0 < N"
    and ja: "ja = in_progress_slot (eeprom s)"
    and ws: "ws = slot_writes (8 * ja) (EEPROMBlock s) (downMins2 (EEPROMBlock s))
                    (downMins1 (EEPROMBlock s)) MODEM_RECORD_IN_PROGRESS"
  shows "setEEPROMUptimeStats s =
           s\<lparr>eeprom := apply_writes ws (eeprom s),
             modemRecordIndex := 8 * ja,
             updates := updates s @ ws,
             gets := gets s + uptime_gets (eeprom s)\<rparr>"
proof -
  let ?s = "s\<lparr>modemRecordIndex := 0, gets := gets s + 1\<rparr>"
  have EL: "EEPROM_length s = int (8 * N)" using L by (simp add: EEPROM_length_def)
  have b0: "EEPROM_byte s 7 = slot_flag (eeprom s) 0"
    using N L EEPROM_byte_flag[of s N 0] by simp
  have loop: "setEEPROMUptimeStats_loop (int (8 * N)) (slot_flag (eeprom s) 0) ?s =
     (case first_slot_with MODEM_RECORD_IN_PROGRESS (eeprom s) of
        Some j0 \<Rightarrow> (MODEM_RECORD_IN_PROGRESS, ?s\<lparr>modemRecordIndex := 8 * j0, gets := gets ?s + j0\<rparr>)
      | None \<Rightarrow> (slot_flag (eeprom s) (N - 1), ?s\<lparr>modemRecordIndex := 8 * N, gets := gets ?s + (N - 1)\<rparr>))"
  proof (cases "first_slot_with MODEM_RECORD_IN_PROGRESS (eeprom s)")
    case None
    then have "\<forall>k<N. slot_flag (eeprom s) k \<noteq> MODEM_RECORD_IN_PROGRESS"
      using first_slot_with_None[OF L] by simp
    then have "setEEPROMUptimeStats_loop (int (8 * N)) (slot_flag (eeprom s) 0) ?s =
           (slot_flag (eeprom ?s) (N - 1), ?s\<lparr>modemRecordIndex := 8 * N, gets := gets ?s + (N - 1 - 0)\<rparr>)"
      using L N by (intro set_loop_not_found[where j = 0]) auto
    then show ?thesis using None by simp
  next
    case (Some j0)
    then have j0: "j0 < N" "slot_flag (eeprom s) j0 = MODEM_RECORD_IN_PROGRESS"
      "\<forall>k<j0. slot_flag (eeprom s) k \<noteq> MODEM_RECORD_IN_PROGRESS"
      using first_slot_with_Some[OF L] by auto
    have "setEEPROMUptimeStats_loop (int (8 * N)) (slot_flag (eeprom s) 0) ?s =
           (MODEM_RECORD_IN_PROGRESS, ?s\<lparr>modemRecordIndex := 8 * j0, gets := gets ?s + (j0 - 0)\<rparr>)"
      using L j0 by (intro set_loop_found[where j = 0 and N = N]) auto
    then show ?thesis using Some by simp
  qed
  show ?thesis
  proof (cases "first_slot_with MODEM_RECORD_IN_PROGRESS (eeprom s)")
    case None
    have "slot_flag (eeprom s) (N - 1) \<noteq> MODEM_RECORD_IN_PROGRESS"
      using None first_slot_with_None[OF L] N by simp
    then show ?thesis
      unfolding setEEPROMUptimeStats_def case_prod_unfold
      using None N L loop
      by (simp add: Let_def EEPROM_get_def EL b0 ja in_progress_slot_def uptime_gets_def
            EEPROM_update_def slot_writes_def apply_writes_def ws cong: let_weak_cong)
  next
    case (Some j0)
    then show ?thesis
      unfolding setEEPROMUptimeStats_def case_prod_unfold
      using loop
      by (simp add: Let_def EEPROM_get_def EL b0 ja in_progress_slot_def uptime_gets_def
            EEPROM_update_def slot_writes_def apply_writes_def ws cong: let_weak_cong)
  qed
qed

subsection \<open>getNewestCompletedRecord in general\<close>

lemma scanned_trans: "scanned a s s' \<Longrightarrow> scanned b s' s'' \<Longrightarrow> scanned (a + b) s s''"
  by (auto simp: scanned_def cursor_ok_def)

lemma scanned_mono: "scanned a s s' \<Longrightarrow> a \<le> b \<Longrightarrow> scanned b s s'"
  by (auto simp: scanned_def)

lemma slot_offset_cursor_ok:
  "length (eeprom s) = 8 * N \<Longrightarrow> j < N \<Longrightarrow> cursor_ok (s\<lparr>modemRecordIndex := 8 * j, gets := g\<rparr>)"
  by (simp add: cursor_ok_def)

lemma next_offset_slot:
  assumes "length (eeprom s) = 8 * N" "j < N" "modemRecordIndex s = 8 * j"
  shows "next_offset s = 8 * int (Suc j mod N)"
  using next_slot_offset[OF assms(1,2)] assms(3) by (simp add: next_offset_def)

lemma getIndexOfNextCompletedRecord_slot:
  assumes L: "length (eeprom s) = 8 * N" and j: "j < N" "modemRecordIndex s = 8 * j"
  shows "getIndexOfNextCompletedRecord s =
     (if slot_flag (eeprom s) (Suc j mod N) = MODEM_RECORD_COMPLETE
      then (8 * int (Suc j mod N), s\<lparr>modemRecordIndex := 8 * (Suc j mod N), gets := gets s + 1\<rparr>)
      else (- 1, s\<lparr>gets := gets s + 1\<rparr>))"
proof -
  have "Suc j mod N < N" using j(1) by simp
  then have "EEPROM_byte s (8 * int (Suc j mod N) + 7) = slot_flag (eeprom s) (Suc j mod N)"
    using L by (intro EEPROM_byte_flag[of _ N]) auto
  then show ?thesis
    by (simp add: getIndexOfNextCompletedRecord_eq next_offset_slot[OF assms] nat_mult_distrib)
qed

lemma getNextCompletedRecord_slot:
  assumes L: "length (eeprom s) = 8 * N" and j: "j < N" "modemRecordIndex s = 8 * j"
  shows "getNextCompletedRecord s =
     (if slot_flag (eeprom s) (Suc j mod N) = MODEM_RECORD_COMPLETE
      then (8 * int (Suc j mod N), s\<lparr>modemRecordIndex := 8 * (Suc j mod N), gets := gets s + 2\<rparr>)
      else (- 1, s\<lparr>gets := gets s + 1\<rparr>))"
proof -
  have "Suc j mod N < N" using j(1) by simp
  then have "EEPROM_byte s (8 * int (Suc j mod N) + 7) = slot_flag (eeprom s) (Suc j mod N)"
    using L by (intro EEPROM_byte_flag[of _ N]) auto
  then show ?thesis
    by (simp add: getNextCompletedRecord_eq next_offset_slot[OF assms] nat_mult_distrib)
qed

lemma newest_loop1_stop:
  "flg = MODEM_RECORD_COMPLETE \<or> n < c \<Longrightarrow>
     getNewestCompletedRecord_loop1 n i flg c s = (Inr (i, flg, c), s)"
  by (subst getNewestCompletedRecord_loop1.simps) auto

lemma newest_loop2_stop:
  "flg \<noteq> MODEM_RECORD_COMPLETE \<or> n < c \<Longrightarrow>
     getNewestCompletedRecord_loop2 n i flg c s = (Inr (i, flg, c), s)"
  by (subst getNewestCompletedRecord_loop2.simps) auto

text \<open>The first loop of getNewestCompletedRecord runs at most once.\<close>

lemma newest_loop1_eq:
  assumes L: "length (eeprom s) = 8 * N" and j: "j < N"
    and go: "flg \<noteq> MODEM_RECORD_COMPLETE" "c \<le> n"
  shows "getNewestCompletedRecord_loop1 n (8 * int j) flg c s =
     (if slot_flag (eeprom s) (Suc j mod N) = MODEM_RECORD_COMPLETE
      then (Inr (8 * int (Suc j mod N), MODEM_RECORD_COMPLETE, c + 1),
            s\<lparr>modemRecordIndex := 8 * (Suc j mod N), gets := gets s + 2\<rparr>)
      else (Inl (8 * int j), s\<lparr>modemRecordIndex := 8 * j, gets := gets s + 1\<rparr>))"
proof -
  let ?s1 = "s\<lparr>modemRecordIndex := nat (8 * int j)\<rparr>"
  have L1: "length (eeprom ?s1) = 8 * N" and c1: "modemRecordIndex ?s1 = 8 * j"
    using L by (simp_all add: nat_mult_distrib)
  note nx = getIndexOfNextCompletedRecord_slot[OF L1 j c1]
  have j': "Suc j mod N < N" using j by simp
  have b: "EEPROM_byte s (8 * int (Suc j mod N) + 7) = slot_flag (eeprom s) (Suc j mod N)"
    using L j' by (intro EEPROM_byte_flag[of _ N]) auto
  show ?thesis
  proof (cases "slot_flag (eeprom s) (Suc j mod N) = MODEM_RECORD_COMPLETE")
    case True
    then show ?thesis
      using go nx b
      by (subst getNewestCompletedRecord_loop1.simps)
         (simp add: Let_def EEPROM_get_def newest_loop1_stop nat_mult_distrib)
  next
    case False
    then show ?thesis
      using go nx
      by (subst getNewestCompletedRecord_loop1.simps)
         (simp add: Let_def nat_mult_distrib)
  qed
qed

text \<open>The second loop of getNewestCompletedRecord, by what it may change.\<close>

lemma newest_loop2_scanned:
  assumes L: "length (eeprom s) = 8 * N" and j: "j < N"
    and m: "m = nat (n + 1 - c)"
  shows "scanned (2 * m) s (snd (getNewestCompletedRecord_loop2 n (8 * int j) flg c s)) \<and>
         (case fst (getNewestCompletedRecord_loop2 n (8 * int j) flg c s) of
            Inl r \<Rightarrow> 0 \<le> r | Inr x \<Rightarrow> True)"
  using assms
proof (induction m arbitrary: j flg c s)
  case 0
  then have "n < c" by simp
  then show ?case by (simp add: newest_loop2_stop scanned_def)
next
  case (Suc m)
  show ?case
  proof (cases "flg = MODEM_RECORD_COMPLETE")
    case False
    then show ?thesis by (simp add: newest_loop2_stop scanned_def)
  next
    case flg: True
    have c: "c \<le> n" using Suc.prems(3) by simp
    let ?s1 = "s\<lparr>modemRecordIndex := nat (8 * int j)\<rparr>"
    have L1: "length (eeprom ?s1) = 8 * N" and c1: "modemRecordIndex ?s1 = 8 * j"
      using Suc.prems(1) by (simp_all add: nat_mult_distrib)
    note nx = getIndexOfNextCompletedRecord_slot[OF L1 Suc.prems(2) c1]
    let ?j' = "Suc j mod N"
    have j': "?j' < N" using Suc.prems(2) by simp
    show ?thesis
    proof (cases "slot_flag (eeprom s) ?j' = MODEM_RECORD_COMPLETE")
      case False
      have "getNewestCompletedRecord_loop2 n (8 * int j) flg c s =
              (Inl (8 * int j), s\<lparr>modemRecordIndex := 8 * j, gets := gets s + 1\<rparr>)"
        using flg c nx False
        by (subst getNewestCompletedRecord_loop2.simps) (simp add: Let_def nat_mult_distrib)
      then show ?thesis
        using Suc.prems(1,2) by (simp add: scanned_def cursor_ok_def)
    next
      case True
      let ?s2 = "s\<lparr>modemRecordIndex := 8 * ?j', gets := gets s + 2\<rparr>"
      have step: "getNewestCompletedRecord_loop2 n (8 * int j) flg c s =
              getNewestCompletedRecord_loop2 n (8 * int ?j') (EEPROM_byte s (8 * int ?j' + 1)) (c + 1) ?s2"
        using flg c nx True
        by (subst getNewestCompletedRecord_loop2.simps)
           (simp add: Let_def EEPROM_get_def nat_mult_distrib)
      have s2: "scanned 2 s ?s2"
        using Suc.prems(1) j' by (simp add: scanned_def cursor_ok_def)
      have ih: "scanned (2 * m) ?s2 (snd (getNewestCompletedRecord_loop2 n (8 * int ?j') (EEPROM_byte s (8 * int ?j' + 1)) (c + 1) ?s2)) \<and>
         (case fst (getNewestCompletedRecord_loop2 n (8 * int ?j') (EEPROM_byte s (8 * int ?j' + 1)) (c + 1) ?s2) of
            Inl r \<Rightarrow> 0 \<le> r | Inr x \<Rightarrow> True)"
        using Suc.prems j' by (intro Suc.IH) auto
      show ?thesis
        unfolding step using scanned_trans[OF s2 conjunct1[OF ih]] ih by simp
    qed
  qed
qed

lemma getNewestCompletedRecord_scanned:
  assumes L: "length (eeprom s) = 8 * N" and N: "0 < N"
  shows "scanned (2 * N + 5) s (snd (getNewestCompletedRecord s)) \<and>
         0 \<le> fst (getNewestCompletedRecord s)"
proof -
  let ?s = "s\<lparr>gets := gets s + 1\<rparr>"
  have EL: "EEPROM_length s div 8 = int N" using L by (simp add: EEPROM_length_def)
  have Ls: "length (eeprom ?s) = 8 * N" using L by simp
  have unfold: "getNewestCompletedRecord s =
      (case getNewestCompletedRecord_loop1 (int N) (8 * int 0) (EEPROM_byte s 7) 0 ?s of
           (Inl r, s) \<Rightarrow> (r, s)
         | (Inr (i, flg, count), s) \<Rightarrow>
             if count > int N then (- 1, s)
             else (let count = 0
                   in case getNewestCompletedRecord_loop2 (int N) i flg count s of
                        (Inl r, s) \<Rightarrow> (r, s)
                      | (Inr (i, flg, count), s) \<Rightarrow> (int (modemRecordIndex s), s)))"
    by (simp add: getNewestCompletedRecord_def EEPROM_get_def Let_def EL)
  have tail: "scanned (2 * N + 2) t (snd (case getNewestCompletedRecord_loop2 (int N) (8 * int j) flg 0 t of
                        (Inl r, s) \<Rightarrow> (r, s)
                      | (Inr (i, flg, count), s) \<Rightarrow> (int (modemRecordIndex s), s))) \<and>
         0 \<le> fst (case getNewestCompletedRecord_loop2 (int N) (8 * int j) flg 0 t of
                        (Inl r, s) \<Rightarrow> (r, s)
                      | (Inr (i, flg, count), s) \<Rightarrow> (int (modemRecordIndex s), s))"
    if "length (eeprom t) = 8 * N" "j < N" for t j flg
  proof -
    from newest_loop2_scanned[OF that refl, of "int N" 0 flg]
    have "scanned (2 * nat (int N + 1)) t (snd (getNewestCompletedRecord_loop2 (int N) (8 * int j) flg 0 t))"
      and "case fst (getNewestCompletedRecord_loop2 (int N) (8 * int j) flg 0 t) of
            Inl r \<Rightarrow> 0 \<le> r | Inr x \<Rightarrow> True"
      by simp_all
    then show ?thesis
      by (cases "getNewestCompletedRecord_loop2 (int N) (8 * int j) flg 0 t")
         (auto split: sum.splits simp: nat_add_distrib)
  qed
  have g1: "scanned 1 s ?s" by (simp add: scanned_def)
  show ?thesis
  proof (cases "EEPROM_byte s 7 = MODEM_RECORD_COMPLETE")
    case True
    note t = tail[OF Ls N, of MODEM_RECORD_COMPLETE]
    have "scanned (1 + (2 * N + 2)) s (snd (getNewestCompletedRecord s))"
      unfolding unfold using True scanned_trans[OF g1 conjunct1[OF t]]
      by (simp add: newest_loop1_stop Let_def)
    moreover have "0 \<le> fst (getNewestCompletedRecord s)"
      unfolding unfold using True conjunct2[OF t]
      by (simp add: newest_loop1_stop Let_def)
    ultimately show ?thesis by (auto intro: scanned_mono)
  next
    case False
    define j1 where "j1 = Suc 0 mod N"
    have j: "j1 < N" using N by (simp add: j1_def)
    have l1: "getNewestCompletedRecord_loop1 (int N) (8 * int 0) (EEPROM_byte s 7) 0 ?s =
     (if slot_flag (eeprom s) j1 = MODEM_RECORD_COMPLETE
      then (Inr (8 * int j1, MODEM_RECORD_COMPLETE, 0 + 1),
            ?s\<lparr>modemRecordIndex := 8 * j1, gets := gets ?s + 2\<rparr>)
      else (Inl (8 * int 0), ?s\<lparr>modemRecordIndex := 8 * 0, gets := gets ?s + 1\<rparr>))"
      unfolding j1_def using newest_loop1_eq[OF Ls N False, of 0 "int N"] by simp
    show ?thesis
    proof (cases "slot_flag (eeprom s) j1 = MODEM_RECORD_COMPLETE")
      case nc: False
      then show ?thesis
        unfolding unfold l1 using L N by (simp add: scanned_def cursor_ok_def)
    next
      case c: True
      let ?t = "s\<lparr>modemRecordIndex := 8 * j1, gets := gets s + 3\<rparr>"
      have Lt: "length (eeprom ?t) = 8 * N" using L by simp
      have st: "scanned 3 s ?t" using L j by (simp add: scanned_def cursor_ok_def)
      have l1': "getNewestCompletedRecord_loop1 (int N) (8 * int 0) (EEPROM_byte s 7) 0 ?s =
          (Inr (8 * int j1, MODEM_RECORD_COMPLETE, 1), ?t)"
        unfolding l1 using c by simp
      note t = tail[OF Lt j, of MODEM_RECORD_COMPLETE]
      have "scanned (3 + (2 * N + 2)) s (snd (getNewestCompletedRecord s))"
        unfolding unfold l1' using scanned_trans[OF st conjunct1[OF t]] N
        by (simp add: Let_def)
      moreover have "0 \<le> fst (getNewestCompletedRecord s)"
        unfolding unfold l1' using conjunct2[OF t] N
        by (simp add: Let_def)
      ultimately show ?thesis by (auto intro: scanned_mono)
    qed
  qed
qed

lemma getIndexOfPrevCompletedRecord_slot:
  assumes L: "length (eeprom s) = 8 * N" and j: "j < N" "modemRecordIndex s = 8 * j"
    and jp: "jp = (j + N - 1) mod N"
  shows "getIndexOfPrevCompletedRecord s =
     (if slot_flag (eeprom s) jp = MODEM_RECORD_COMPLETE
      then (8 * int jp, s\<lparr>modemRecordIndex := 8 * jp, gets := gets s + 1\<rparr>)
      else (- 1, s\<lparr>gets := gets s + 1\<rparr>))"
proof -
  have jpN: "jp < N" using j(1) jp by simp
  have i: "(if int (modemRecordIndex s) - 8 < 0 then int (modemRecordIndex s) - 8 + EEPROM_length s
            else int (modemRecordIndex s) - 8) = 8 * int jp"
  proof (cases "j = 0")
    case True
    then have "jp = N - 1" using j(1) jp by simp
    then show ?thesis using True j L by (simp add: of_nat_diff EEPROM_length_def)
  next
    case False
    then have "jp = j - 1" using j(1) jp by (simp add: mod_if)
    then show ?thesis using False j by (simp add: of_nat_diff)
  qed
  have b: "EEPROM_byte s (8 * int jp + 7) = slot_flag (eeprom s) jp"
    using L jpN by (intro EEPROM_byte_flag[of _ N]) auto
  show ?thesis
    unfolding getIndexOfPrevCompletedRecord_def sizeof_EEPROMRecord_t_def Let_def i
    by (simp add: EEPROM_get_def b nat_mult_distrib)
qed

subsection \<open>The cursor stays on a slot\<close>

declare getEEPROMUptimeStats_loop.simps [simp del]

lemma getEEPROMUptimeStats_loop_frame:
  "eeprom (snd (getEEPROMUptimeStats_loop EL i found s)) = eeprom s \<and>
   modemRecordIndex (snd (getEEPROMUptimeStats_loop EL i found s)) = modemRecordIndex s"
proof (induction EL i found s rule: getEEPROMUptimeStats_loop.induct)
  case (1 EL i found s)
  show ?case
  proof (cases "i + 7 < EL \<and> found \<noteq> True")
    case False
    then show ?thesis by (subst (1 2) getEEPROMUptimeStats_loop.simps) auto
  next
    case True
    let ?s = "s\<lparr>gets := gets s + 1\<rparr>"
    have g: "EEPROM_get (i + 7) s = (EEPROM_byte s (i + 7), ?s)" by (simp add: EEPROM_get_def)
    show ?thesis
    proof (cases "EEPROM_byte s (i + 7) = MODEM_RECORD_IN_PROGRESS")
      case ip: True
      have "getEEPROMUptimeStats_loop EL i found s = getEEPROMUptimeStats_loop EL i True ?s"
        using True ip by (subst getEEPROMUptimeStats_loop.simps) (simp add: g)
      then show ?thesis using "1.IH"(1)[OF True refl g[symmetric] ip] by simp
    next
      case nip: False
      have "getEEPROMUptimeStats_loop EL i found s = getEEPROMUptimeStats_loop EL (i + 8) found ?s"
        using True nip by (subst getEEPROMUptimeStats_loop.simps) (simp add: g)
      then show ?thesis using "1.IH"(2)[OF True refl g[symmetric] nip] by simp
    qed
  qed
qed

lemma getEEPROMUptimeStats_frame:
  "eeprom (getEEPROMUptimeStats s) = eeprom s \<and>
   modemRecordIndex (getEEPROMUptimeStats s) = modemRecordIndex s"
proof -
  obtain i f s' where r: "getEEPROMUptimeStats_loop (EEPROM_length s) 0 False s = ((i, f), s')"
    by (metis surj_pair)
  with getEEPROMUptimeStats_loop_frame[of "EEPROM_length s" 0 False s]
  have "eeprom s' = eeprom s" "modemRecordIndex s' = modemRecordIndex s" by simp_all
  then show ?thesis
    by (simp add: getEEPROMUptimeStats_def r getDataFromIndex_def)
qed

lemma store_okI:
  "length (eeprom s) = 8 * N \<Longrightarrow> j < N \<Longrightarrow> modemRecordIndex s = 8 * j \<Longrightarrow> store_ok s"
  by (auto simp: store_ok_def ring_ok_def cursor_ok_def)

lemma store_ok_same:
  "store_ok s \<Longrightarrow> eeprom s' = eeprom s \<Longrightarrow> modemRecordIndex s' = modemRecordIndex s \<Longrightarrow>
     store_ok s'"
  by (simp add: store_ok_def cursor_ok_def)

lemma store_ok_scanned: "store_ok s \<Longrightarrow> scanned b s s' \<Longrightarrow> store_ok s'"
  by (auto simp: store_ok_def scanned_def cursor_ok_def)

lemma store_ok_getOldestCompletedRecord:
  assumes "store_ok s"
  shows "store_ok (snd (getOldestCompletedRecord count0 s))"
proof -
  from assms obtain N where L: "length (eeprom s) = 8 * N" and N: "0 < N"
    using ring_okD by (auto simp: store_ok_def)
  show ?thesis
  proof (cases "count0 > int N")
    case True
    then show ?thesis
      using assms by (simp add: getOldestCompletedRecord_eq[OF L N] store_ok_same)
  next
    case c0: False
    show ?thesis
    proof (cases "first_slot_with MODEM_RECORD_IN_PROGRESS (eeprom s)")
      case None
      have "store_ok (s\<lparr>modemRecordIndex := 8 * (N - 1), gets := gets s + N\<rparr>)"
        using L N by (intro store_okI[where N = N and j = "N - 1"]) auto
      then show ?thesis
        using c0 None by (simp add: getOldestCompletedRecord_eq[OF L N])
    next
      case (Some j0)
      then have j0: "j0 < N" using first_slot_with_Some[OF L] by auto
      show ?thesis
      proof (cases "steps_to_complete (eeprom s) j0")
        case None
        have "store_ok (s\<lparr>modemRecordIndex := 8 * (j0 - 1), gets := g\<rparr>)" for g
          using L j0 by (intro store_okI[where N = N and j = "j0 - 1"]) auto
        moreover have "store_ok (s\<lparr>gets := g\<rparr>)" for g
          using assms by (rule store_ok_same) simp_all
        ultimately show ?thesis
          using c0 None Some by (simp add: getOldestCompletedRecord_eq[OF L N])
      next
        case m: (Some m)
        have "store_ok (s\<lparr>modemRecordIndex := 8 * ((j0 + m) mod N), gets := g\<rparr>)" for g
          using L N by (intro store_okI[where N = N and j = "(j0 + m) mod N"]) auto
        then show ?thesis
          using c0 m Some by (simp add: getOldestCompletedRecord_eq[OF L N])
      qed
    qed
  qed
qed

lemma store_ok_steps:
  assumes "store_ok s"
  shows "store_ok (snd (getIndexOfNextCompletedRecord s))"
    and "store_ok (snd (getIndexOfPrevCompletedRecord s))"
    and "store_ok (snd (getNextCompletedRecord s))"
proof -
  from assms obtain N where L: "length (eeprom s) = 8 * N" and N: "0 < N"
    using ring_okD by (auto simp: store_ok_def)
  from assms cursor_okD[OF _ L] obtain j where j: "j < N" "modemRecordIndex s = 8 * j"
    by (auto simp: store_ok_def)
  have same: "store_ok (s\<lparr>gets := g\<rparr>)" for g
    using assms by (rule store_ok_same) simp_all
  have moved: "store_ok (s\<lparr>modemRecordIndex := 8 * k, gets := g\<rparr>)" if "k < N" for k g
    using L that by (intro store_okI[where N = N and j = k]) auto
  have nx: "Suc j mod N < N" and pv: "(j + N - 1) mod N < N" using N by simp_all
  show "store_ok (snd (getIndexOfNextCompletedRecord s))"
    using same moved[OF nx] by (simp add: getIndexOfNextCompletedRecord_slot[OF L j])
  show "store_ok (snd (getNextCompletedRecord s))"
    using same moved[OF nx] by (simp add: getNextCompletedRecord_slot[OF L j])
  show "store_ok (snd (getIndexOfPrevCompletedRecord s))"
    using same moved[OF pv] by (simp add: getIndexOfPrevCompletedRecord_slot[OF L j refl])
qed

lemma store_ok_scans:
  assumes "store_ok s"
  shows "store_ok (snd (getRecordInProgress s))"
    and "store_ok (snd (getNewestCompletedRecord s))"
proof -
  from assms obtain N where L: "length (eeprom s) = 8 * N" and N: "0 < N"
    using ring_okD by (auto simp: store_ok_def)
  show "store_ok (snd (getRecordInProgress s))"
    unfolding getRecordInProgress_state[OF L N]
    using L in_progress_slot_less[OF L N] by (intro store_okI[where N = N]) auto
  show "store_ok (snd (getNewestCompletedRecord s))"
    using store_ok_scanned[OF assms] getNewestCompletedRecord_scanned[OF L N] by blast
qed

lemma store_ok_writers:
  assumes "store_ok s"
  shows "store_ok (completeLogEntry s)"
    and "store_ok (setEEPROMUptimeStats s)"
    and "store_ok (clearLog s)"
proof -
  from assms obtain N where L: "length (eeprom s) = 8 * N" and N: "0 < N"
    using ring_okD by (auto simp: store_ok_def)
  from assms cursor_okD[OF _ L] obtain j where j: "j < N" "modemRecordIndex s = 8 * j"
    by (auto simp: store_ok_def)
  have nx: "Suc (in_progress_slot (eeprom s)) mod N < N" using N by simp
  show "store_ok (completeLogEntry s)"
    unfolding completeLogEntry_eq[OF L N refl refl]
    using L nx by (intro store_okI[where N = N]) auto
  show "store_ok (setEEPROMUptimeStats s)"
    unfolding setEEPROMUptimeStats_eq[OF L N refl refl]
    using L in_progress_slot_less[OF L N] by (intro store_okI[where N = N]) auto
  show "store_ok (clearLog s)"
    unfolding clearLog_eq[OF refl refl refl]
    using L j by (intro store_okI[where N = N and j = j]) auto
qed

text \<open>
  C10. \<open>store_ok s\<close> says that the EEPROM's length is a positive multiple of 8 and that
  \<^verbatim>\<open>_modemRecordIndex\<close> is a multiple of 8 below that length. Every public method of
  the class that touches the object (the four scans, the two single steps, the three
  writers, the readers of the staging block, the codec's encoder and the constructor)
  returns an object for which this holds again, whatever the EEPROM holds and whatever
  the uninitialised \<^verbatim>\<open>count\<close> of \<^verbatim>\<open>getOldestCompletedRecord\<close> is.
\<close>

theorem cursor_stays_on_a_slot:
  assumes "store_ok s"
  shows "store_ok (snd (getOldestCompletedRecord count0 s)) \<and>
         store_ok (snd (getNextCompletedRecord s)) \<and>
         store_ok (snd (getRecordInProgress s)) \<and>
         store_ok (snd (getNewestCompletedRecord s)) \<and>
         store_ok (snd (getIndexOfNextCompletedRecord s)) \<and>
         store_ok (snd (getIndexOfPrevCompletedRecord s)) \<and>
         store_ok (completeLogEntry s) \<and>
         store_ok (setEEPROMUptimeStats s) \<and>
         store_ok (clearLog s) \<and>
         store_ok (getEEPROMUptimeStats s) \<and>
         store_ok (getDataFromIndex ind s) \<and>
         store_ok (getDataFromIndex_cursor s) \<and>
         store_ok (convertToEEPROMBlock src s) \<and>
         store_ok (EEPROMRecordClass_ctor s)"
proof -
  have "store_ok (getEEPROMUptimeStats s)"
    using assms getEEPROMUptimeStats_frame[of s] by (auto intro: store_ok_same)
  moreover have "store_ok (getDataFromIndex ind s)" "store_ok (getDataFromIndex_cursor s)"
    "store_ok (convertToEEPROMBlock src s)"
    using assms
    by (auto intro!: store_ok_same[OF assms]
          simp: getDataFromIndex_def getDataFromIndex_cursor_def convertToEEPROMBlock_def)
  moreover have "store_ok (EEPROMRecordClass_ctor s)"
    using store_ok_scans(2)[OF assms] by (simp add: EEPROMRecordClass_ctor_def)
  ultimately show ?thesis
    using store_ok_getOldestCompletedRecord[OF assms] store_ok_steps[OF assms]
      store_ok_scans[OF assms] store_ok_writers[OF assms]
    by blast
qed

theorem cursor_stays_on_a_slot_witness:
  "store_ok ((blank_store 24)\<lparr>modemRecordIndex := 16\<rparr>) \<and>
   store_ok (snd (getOldestCompletedRecord 0 ((blank_store 24)\<lparr>modemRecordIndex := 16\<rparr>))) \<and>
   store_ok (snd (getNextCompletedRecord ((blank_store 24)\<lparr>modemRecordIndex := 16\<rparr>))) \<and>
   store_ok (snd (getIndexOfPrevCompletedRecord ((blank_store 24)\<lparr>modemRecordIndex := 16\<rparr>))) \<and>
   store_ok (completeLogEntry ((blank_store 24)\<lparr>modemRecordIndex := 16\<rparr>)) \<and>
   store_ok (setEEPROMUptimeStats ((blank_store 24)\<lparr>modemRecordIndex := 16\<rparr>)) \<and>
   store_ok (clearLog ((blank_store 24)\<lparr>modemRecordIndex := 16\<rparr>))"
proof -
  have h: "store_ok ((blank_store 24)\<lparr>modemRecordIndex := 16\<rparr>)"
    by (simp add: store_ok_def eval_defs)
  show ?thesis
    using h cursor_stays_on_a_slot[OF h, of 0] by blast
qed

subsection \<open>How far the scans read, and when they fail\<close>

lemma first_slot_with_empty:
  assumes "length mem = 8 * N"
  shows "first_slot_with f mem = None \<longleftrightarrow> slots_with f mem = []"
  using first_slot_with_None[OF assms] slots_with_empty[OF assms] by simp

lemma getRecordInProgress_gets:
  assumes L: "length (eeprom s) = 8 * N" and N: "0 < N"
  shows "gets (snd (getRecordInProgress s)) \<le> gets s + N + 2"
proof -
  have "in_progress_gets (eeprom s) \<le> N + 2"
    using L first_slot_with_Some[OF L]
    by (auto simp: in_progress_gets_def split: option.splits)
  then show ?thesis by (simp add: getRecordInProgress_state[OF L N])
qed

lemma getOldestCompletedRecord_gets:
  assumes L: "length (eeprom s) = 8 * N" and N: "0 < N"
  shows "gets (snd (getOldestCompletedRecord count0 s)) \<le> gets s + 2 * N"
proof (cases "first_slot_with MODEM_RECORD_IN_PROGRESS (eeprom s)")
  case None
  then show ?thesis using N by (simp add: getOldestCompletedRecord_eq[OF L N])
next
  case (Some j0)
  then have j0: "j0 < N" using first_slot_with_Some[OF L] by auto
  show ?thesis
  proof (cases "steps_to_complete (eeprom s) j0")
    case None
    then show ?thesis using Some j0 N by (simp add: getOldestCompletedRecord_eq[OF L N])
  next
    case m: (Some m)
    then have "m < N" using steps_to_complete_Some[OF L] by auto
    then show ?thesis using Some m j0 N by (simp add: getOldestCompletedRecord_eq[OF L N])
  qed
qed

lemma getOldestCompletedRecord_fails:
  assumes L: "length (eeprom s) = 8 * N" and N: "0 < N"
    and "slots_with MODEM_RECORD_IN_PROGRESS (eeprom s) = [] \<or>
         slots_with MODEM_RECORD_COMPLETE (eeprom s) = []"
  shows "fst (getOldestCompletedRecord count0 s) = - 1"
proof (cases "first_slot_with MODEM_RECORD_IN_PROGRESS (eeprom s)")
  case None
  then show ?thesis by (simp add: getOldestCompletedRecord_eq[OF L N])
next
  case (Some j0)
  then have j0: "j0 < N" using first_slot_with_Some[OF L] by auto
  from Some assms(3) have "slots_with MODEM_RECORD_COMPLETE (eeprom s) = []"
    using first_slot_with_empty[OF L, of MODEM_RECORD_IN_PROGRESS] by auto
  then have "steps_to_complete (eeprom s) j0 = None"
    using steps_to_complete_None[OF L N j0] slots_with_empty[OF L] by simp
  then show ?thesis using Some by (simp add: getOldestCompletedRecord_eq[OF L N])
qed

text \<open>
  C4 (as amended). Every scan is a total function: its loops are defined with termination
  proofs, so it returns on every EEPROM content. On a ring of \<open>N\<close> slots (length a
  positive multiple of 8) the number of \<^verbatim>\<open>EEPROM.get\<close> calls of one scan is at most
  \<open>N + 2\<close> for \<^verbatim>\<open>getRecordInProgress\<close>, \<open>2 * N\<close> for
  \<^verbatim>\<open>getOldestCompletedRecord\<close> (whatever its uninitialised \<^verbatim>\<open>count\<close> holds),
  \<open>2 * N + 5\<close> for \<^verbatim>\<open>getNewestCompletedRecord\<close> and 2 for
  \<^verbatim>\<open>getNextCompletedRecord\<close>. \<^verbatim>\<open>getRecordInProgress\<close> returns -1 when no slot is
  in progress; \<^verbatim>\<open>getOldestCompletedRecord\<close> returns -1 when no slot is in progress
  or no slot is complete; \<^verbatim>\<open>getNextCompletedRecord\<close> returns -1 when the slot after
  the cursor is not complete.
\<close>

theorem scans_are_bounded:
  assumes "ring_ok (eeprom s)" and "N = length (eeprom s) div 8"
  shows "gets (snd (getRecordInProgress s)) \<le> gets s + N + 2 \<and>
         gets (snd (getOldestCompletedRecord count0 s)) \<le> gets s + 2 * N \<and>
         gets (snd (getNewestCompletedRecord s)) \<le> gets s + 2 * N + 5 \<and>
         gets (snd (getNextCompletedRecord s)) \<le> gets s + 2 \<and>
         (slots_with MODEM_RECORD_IN_PROGRESS (eeprom s) = [] \<longrightarrow>
            fst (getRecordInProgress s) = - 1 \<and> fst (getOldestCompletedRecord count0 s) = - 1) \<and>
         (slots_with MODEM_RECORD_COMPLETE (eeprom s) = [] \<longrightarrow>
            fst (getOldestCompletedRecord count0 s) = - 1) \<and>
         (EEPROM_byte s (next_offset s + 7) \<noteq> MODEM_RECORD_COMPLETE \<longrightarrow>
            fst (getNextCompletedRecord s) = - 1)"
proof -
  from assms(1) obtain N' where L': "length (eeprom s) = 8 * N'" and N': "0 < N'"
    using ring_okD by blast
  with assms(2) have NN: "N' = N" by simp
  note L = L'[unfolded NN] and N = N'[unfolded NN]
  have "fst (getRecordInProgress s) = - 1"
    if "slots_with MODEM_RECORD_IN_PROGRESS (eeprom s) = []"
    using that getRecordInProgress_not_found[OF L N] first_slot_with_empty[OF L] by simp
  moreover have "gets (snd (getNewestCompletedRecord s)) \<le> gets s + 2 * N + 5"
    using getNewestCompletedRecord_scanned[OF L N] by (simp add: scanned_def)
  moreover have "gets (snd (getNextCompletedRecord s)) \<le> gets s + 2"
    by (simp add: getNextCompletedRecord_eq)
  moreover have "fst (getNextCompletedRecord s) = - 1"
    if "EEPROM_byte s (next_offset s + 7) \<noteq> MODEM_RECORD_COMPLETE"
    using that by (simp add: getNextCompletedRecord_eq)
  ultimately show ?thesis
    using getRecordInProgress_gets[OF L N] getOldestCompletedRecord_gets[OF L N]
      getOldestCompletedRecord_fails[OF L N]
    by blast
qed

theorem scans_are_bounded_witness:
  "ring_ok (eeprom (blank_store 16)) \<and>
   slots_with MODEM_RECORD_IN_PROGRESS (eeprom (blank_store 16)) = [] \<and>
   slots_with MODEM_RECORD_COMPLETE (eeprom (blank_store 16)) = [] \<and>
   EEPROM_byte (blank_store 16) (next_offset (blank_store 16) + 7) \<noteq> MODEM_RECORD_COMPLETE \<and>
   gets (snd (getRecordInProgress (blank_store 16))) \<le> gets (blank_store 16) + 2 + 2 \<and>
   gets (snd (getOldestCompletedRecord 0 (blank_store 16))) \<le> gets (blank_store 16) + 2 * 2 \<and>
   gets (snd (getNewestCompletedRecord (blank_store 16))) \<le> gets (blank_store 16) + 2 * 2 + 5 \<and>
   gets (snd (getNextCompletedRecord (blank_store 16))) \<le> gets (blank_store 16) + 2 \<and>
   fst (getRecordInProgress (blank_store 16)) = - 1 \<and>
   fst (getOldestCompletedRecord 0 (blank_store 16)) = - 1 \<and>
   fst (getNextCompletedRecord (blank_store 16)) = - 1"
proof -
  have h1: "ring_ok (eeprom (blank_store 16))"
    by (simp add: eval_defs)
  have h2: "(2::nat) = length (eeprom (blank_store 16)) div 8"
    by (simp add: eval_defs)
  have h3: "slots_with MODEM_RECORD_IN_PROGRESS (eeprom (blank_store 16)) = []"
    by (simp add: eval_defs)
  have h4: "slots_with MODEM_RECORD_COMPLETE (eeprom (blank_store 16)) = []"
    by (simp add: eval_defs)
  have h5: "EEPROM_byte (blank_store 16) (next_offset (blank_store 16) + 7) \<noteq> MODEM_RECORD_COMPLETE"
    by (simp add: eval_defs next_offset_def)
  show ?thesis
    using h1 h3 h4 h5 scans_are_bounded[OF h1 h2, of 0] by blast
qed

text \<open>
  The claim as stated fails on a ring of four slots. With the last slot in progress and
  no completed record, \<^verbatim>\<open>getOldestCompletedRecord\<close> reads 8 flags bytes, more than
  \<open>N + 1 = 5\<close>: four to find the slot in progress and four to walk the ring once. On
  the blank ring \<^verbatim>\<open>getRecordInProgress\<close> reads 6, and
  \<^verbatim>\<open>getNewestCompletedRecord\<close> returns 0, not -1, although no slot is complete.
\<close>

theorem scans_probe_bound_counterexample:
  "length (eeprom in_progress_at_24) div 8 = 4 \<and>
   gets in_progress_at_24 = 0 \<and>
   gets (snd (getOldestCompletedRecord 0 in_progress_at_24)) = 8 \<and>
   \<not> gets (snd (getOldestCompletedRecord 0 in_progress_at_24)) \<le>
       gets in_progress_at_24 + (length (eeprom in_progress_at_24) div 8 + 1) \<and>
   gets (snd (getRecordInProgress (blank_store 32))) = 6 \<and>
   slots_with MODEM_RECORD_COMPLETE (eeprom (blank_store 32)) = [] \<and>
   fst (getNewestCompletedRecord (blank_store 32)) = 0"
  by (simp add: in_progress_at_24_def eval_defs getNewestCompletedRecord_def
        getNewestCompletedRecord_loop1.simps getNewestCompletedRecord_loop2.simps
        getOldestCompletedRecord_def getOldestCompletedRecord_loop1.simps
        getOldestCompletedRecord_loop2.simps
        cong: let_weak_cong)

subsection \<open>A traversal from the oldest record\<close>

lemma record_at_cursor_eq:
  assumes "8 * i + 7 < length (eeprom s)"
  shows "record_at_cursor (s\<lparr>modemRecordIndex := 8 * i\<rparr>) =
    (push_bit 24 (ucast (eeprom s ! (8 * i)) :: uint32_t) +
     push_bit 16 (ucast (eeprom s ! (8 * i + 1)) :: uint32_t) +
     push_bit 8 (ucast (eeprom s ! (8 * i + 2)) :: uint32_t) +
     (ucast (eeprom s ! (8 * i + 3)) :: uint32_t),
     push_bit 8 (ucast (eeprom s ! (8 * i + 4)) :: uint16_t) +
     (ucast (eeprom s ! (8 * i + 5)) :: uint16_t))"
  using assms
  by (simp add: record_at_cursor_def getDataFromIndex_cursor_def getDataFromIndex_def
        convertFromEEPROMBlock_def EEPROM_byte_def EEPROM_length_def
        nat_add_distrib nat_mult_distrib)

lemma logged_blank:
  assumes "eeprom s = replicate (8 * N) MODEM_RECORD_UNUSED"
  shows "logged [] N s"
proof -
  have "slot_flag (eeprom s) j = MODEM_RECORD_UNUSED" if "j < N" for j
    using slot_end_less[OF that] assms by (simp add: slot_flag_def)
  then show ?thesis using assms by (simp add: logged_def)
qed

lemma logged_in_progress_slot:
  assumes "logged rs N s" "length rs < N"
  shows "in_progress_slot (eeprom s) = length rs"
proof (cases "rs = []")
  case True
  with assms have "\<forall>k<N. slot_flag (eeprom s) k \<noteq> MODEM_RECORD_IN_PROGRESS"
    by (simp add: logged_def flag_consts)
  moreover from assms have L: "length (eeprom s) = 8 * N" by (simp add: logged_def)
  ultimately have "first_slot_with MODEM_RECORD_IN_PROGRESS (eeprom s) = None"
    by (simp add: first_slot_with_None[OF L])
  then show ?thesis using True by (simp add: in_progress_slot_def)
next
  case False
  from assms have L: "length (eeprom s) = 8 * N" by (simp add: logged_def)
  have a: "slot_flag (eeprom s) (length rs) = MODEM_RECORD_IN_PROGRESS"
    using assms False by (simp add: logged_def)
  have b: "\<forall>k<length rs. slot_flag (eeprom s) k \<noteq> MODEM_RECORD_IN_PROGRESS"
    using assms by (simp add: logged_def flag_consts)
  have "first_slot_with MODEM_RECORD_IN_PROGRESS (eeprom s) = Some (length rs)"
    using a b assms(2) by (simp add: first_slot_with_Some[OF L])
  then show ?thesis by (simp add: in_progress_slot_def)
qed

lemma logged_step:
  assumes lg: "logged rs N s" and k: "Suc (length rs) < N"
  shows "logged (rs @ [r]) N (completeLogEntry (convertToEEPROMBlock r s))"
proof -
  let ?k = "length rs"
  let ?s1 = "convertToEEPROMBlock r s"
  let ?s' = "completeLogEntry ?s1"
  let ?blk = "EEPROMBlock ?s1"
  let ?W1 = "slot_writes (8 * ?k) ?blk (downMins2 ?blk) (downMins1 ?blk) MODEM_RECORD_COMPLETE"
  let ?W2 = "slot_writes (8 * Suc ?k) ?blk 0 0 MODEM_RECORD_IN_PROGRESS"
  let ?mem = "eeprom s"
  let ?mem1 = "apply_writes ?W1 ?mem"
  from lg have L: "length ?mem = 8 * N" by (simp add: logged_def)
  from k have N: "0 < N" by simp
  have L1: "length (eeprom ?s1) = 8 * N" using L by simp
  have ips: "in_progress_slot ?mem = ?k"
    using logged_in_progress_slot[OF lg] k by simp
  have md: "Suc ?k mod N = Suc ?k" using k by simp
  have mem': "eeprom ?s' = apply_writes ?W2 ?mem1"
    using completeLogEntry_eq[OF L1 N refl refl] ips md
    by (simp add: apply_writes_append)
  have L': "length (eeprom ?s') = 8 * N" using mem' L by simp
  have flags': "slot_flag (eeprom ?s') j =
      (if j = Suc ?k then MODEM_RECORD_IN_PROGRESS
       else if j = ?k then MODEM_RECORD_COMPLETE else slot_flag ?mem j)" if "j < N" for j
    using completeLogEntry_flags[OF L1 N that] ips md by simp
  have kend: "8 * ?k + 7 < length ?mem" using k L by simp
  have old: "eeprom ?s' ! (8 * i + q) = ?mem ! (8 * i + q)" if "i < ?k" "q \<le> 7" for i q
  proof -
    have "8 * i + 7 < 8 * Suc ?k" "8 * i + 7 < 8 * ?k" using that by simp_all
    then show ?thesis
      using that(2) by (simp add: mem' nth_apply_slot_writes_other)
  qed
  have new: "eeprom ?s' ! (8 * ?k + q) = ?mem1 ! (8 * ?k + q)" if "q \<le> 7" for q
  proof -
    have "8 * ?k + 7 < 8 * Suc ?k" by simp
    then show ?thesis
      using that by (simp add: mem' nth_apply_slot_writes_other)
  qed
  have rec_old: "record_at_cursor (?s'\<lparr>modemRecordIndex := 8 * i\<rparr>) =
                 record_at_cursor (s\<lparr>modemRecordIndex := 8 * i\<rparr>)" if "i < ?k" for i
  proof -
    have e: "8 * i + 7 < length ?mem" "8 * i + 7 < length (eeprom ?s')"
      using that k L L' by simp_all
    show ?thesis
      unfolding record_at_cursor_eq[OF e(1)] record_at_cursor_eq[OF e(2)]
      using old[OF that, of 0] old[OF that, of 1] old[OF that, of 2] old[OF that, of 3]
        old[OF that, of 4] old[OF that, of 5]
      by simp
  qed
  have rec_new: "record_at_cursor (?s'\<lparr>modemRecordIndex := 8 * ?k\<rparr>) =
                 (secsSince1900 r, downMins r)"
  proof -
    have e: "8 * ?k + 7 < length (eeprom ?s')" using k L' by simp
    show ?thesis
      unfolding record_at_cursor_eq[OF e]
      using new[of 0] new[of 1] new[of 2] new[of 3] new[of 4] new[of 5]
        nth_apply_slot_writes_same[OF kend, of ?blk "downMins2 ?blk" "downMins1 ?blk" MODEM_RECORD_COMPLETE]
      by (simp add: convertToEEPROMBlock_def bytes_of_uint32 bytes_of_uint16)
  qed
  have c2: "slot_flag (eeprom ?s') i = MODEM_RECORD_COMPLETE \<and>
            record_at_cursor (?s'\<lparr>modemRecordIndex := 8 * i\<rparr>) =
              (secsSince1900 ((rs @ [r]) ! i), downMins ((rs @ [r]) ! i))"
    if "i < length (rs @ [r])" for i
  proof (cases "i = ?k")
    case True
    then show ?thesis using flags'[of i] k rec_new by simp
  next
    case False
    with that have i: "i < ?k" by simp
    then have "slot_flag ?mem i = MODEM_RECORD_COMPLETE"
      "record_at_cursor (s\<lparr>modemRecordIndex := 8 * i\<rparr>) = (secsSince1900 (rs ! i), downMins (rs ! i))"
      using lg by (simp_all add: logged_def)
    then show ?thesis using flags'[of i] i k rec_old[OF i] by (simp add: nth_append)
  qed
  have c3: "slot_flag (eeprom ?s') j =
      (if j = length (rs @ [r]) \<and> rs @ [r] \<noteq> [] then MODEM_RECORD_IN_PROGRESS
       else MODEM_RECORD_UNUSED)" if "j < N" "length (rs @ [r]) \<le> j" for j
  proof -
    have "slot_flag ?mem j = MODEM_RECORD_UNUSED" if "Suc ?k < j" "j < N"
      using lg that by (simp add: logged_def)
    then show ?thesis using flags'[OF that(1)] that by auto
  qed
  show ?thesis
    unfolding logged_def using L' c2 c3 by blast
qed

lemma logged_calls:
  "logged rs N s \<Longrightarrow> length rs + length rs' < N \<Longrightarrow>
   logged (rs @ rs') N (completeLogEntry_calls (map Some rs') s)"
proof (induction rs' arbitrary: rs s)
  case Nil
  then show ?case by simp
next
  case (Cons r rs')
  have "logged (rs @ [r]) N (completeLogEntry (convertToEEPROMBlock r s))"
    using Cons.prems by (intro logged_step) simp_all
  from Cons.IH[OF this] Cons.prems(2) show ?case by simp
qed

lemma record_at_cursor_gets [simp]:
  "record_at_cursor (s\<lparr>modemRecordIndex := i, gets := g\<rparr>) = record_at_cursor (s\<lparr>modemRecordIndex := i\<rparr>)"
  by (simp add: record_at_cursor_def getDataFromIndex_cursor_def getDataFromIndex_def
        convertFromEEPROMBlock_def)

lemma logged_slots_with_complete:
  assumes lg: "logged rs N s" and k: "length rs < N"
  shows "slots_with MODEM_RECORD_COMPLETE (eeprom s) = [0..<length rs]"
proof -
  let ?P = "\<lambda>j. slot_flag (eeprom s) j = MODEM_RECORD_COMPLETE"
  from lg have L: "length (eeprom s) div 8 = N" by (simp add: logged_def)
  have a: "\<forall>j\<in>set [0..<length rs]. ?P j" using lg by (simp add: logged_def)
  have b: "\<forall>j\<in>set [length rs..<N]. \<not> ?P j" using lg by (simp add: logged_def flag_consts)
  have "[0..<N] = [0..<length rs] @ [length rs..<N]"
    using k upt_add_eq_append[of 0 "length rs" "N - length rs"] by simp
  then have "filter ?P [0..<N] = filter ?P [0..<length rs] @ filter ?P [length rs..<N]"
    by simp
  also have "\<dots> = [0..<length rs]"
    using a b by (simp only: filter_True filter_False append_Nil2)
  finally show ?thesis by (simp add: slots_with_def L)
qed

lemma logged_oldest:
  assumes lg: "logged rs N s" and k0: "0 < length rs" and k: "length rs < N"
    and c: "count0 \<le> int N"
  shows "getOldestCompletedRecord count0 s =
           (0, s\<lparr>modemRecordIndex := 0, gets := gets s + 1 + N\<rparr>)"
proof -
  let ?k = "length rs"
  from lg have L: "length (eeprom s) = 8 * N" by (simp add: logged_def)
  from k have N: "0 < N" by simp
  have a: "slot_flag (eeprom s) ?k = MODEM_RECORD_IN_PROGRESS"
    using lg k k0 by (simp add: logged_def)
  have b: "\<forall>j<?k. slot_flag (eeprom s) j \<noteq> MODEM_RECORD_IN_PROGRESS"
    using lg by (simp add: logged_def flag_consts)
  have f: "first_slot_with MODEM_RECORD_IN_PROGRESS (eeprom s) = Some ?k"
    using a b k by (simp add: first_slot_with_Some[OF L])
  have z: "(?k + (N - ?k)) mod N = 0" using k by simp
  have c0: "slot_flag (eeprom s) 0 = MODEM_RECORD_COMPLETE"
    using lg k0 by (simp add: logged_def)
  have nc: "slot_flag (eeprom s) ((?k + t) mod N) \<noteq> MODEM_RECORD_COMPLETE" if "t < N - ?k" for t
  proof -
    from that have lt: "?k + t < N" by simp
    then have "slot_flag (eeprom s) (?k + t) \<noteq> MODEM_RECORD_COMPLETE"
      using lg by (simp add: logged_def flag_consts)
    then show ?thesis using lt by simp
  qed
  have st: "steps_to_complete (eeprom s) ?k = Some (N - ?k)"
    unfolding steps_to_complete_Some[OF L] using z c0 nc k0 k by simp
  show ?thesis
    using c z k by (simp add: getOldestCompletedRecord_eq[OF L N] f st)
qed

lemma logged_oldest_fails:
  assumes lg: "logged rs N s" and k: "length rs < N" and c: "int N < count0"
  shows "fst (getOldestCompletedRecord count0 s) = - 1"
proof -
  from lg have L: "length (eeprom s) = 8 * N" by (simp add: logged_def)
  from k have N: "0 < N" by simp
  show ?thesis using c by (simp add: getOldestCompletedRecord_eq[OF L N])
qed

lemma logged_next:
  assumes lg: "logged rs N s" and k: "length rs < N" and i: "i < length rs"
  shows "getNextCompletedRecord (s\<lparr>modemRecordIndex := 8 * i, gets := g\<rparr>) =
           (if Suc i < length rs
            then (8 * int (Suc i), s\<lparr>modemRecordIndex := 8 * Suc i, gets := g + 2\<rparr>)
            else (- 1, s\<lparr>modemRecordIndex := 8 * i, gets := g + 1\<rparr>))"
proof -
  let ?s = "s\<lparr>modemRecordIndex := 8 * i, gets := g\<rparr>"
  from lg have L: "length (eeprom s) = 8 * N" by (simp add: logged_def)
  have si: "Suc i < N" using i k by simp
  have no: "next_offset ?s = 8 * int (Suc i)"
    using si L by (simp add: next_offset_def EEPROM_length_def)
  have by7: "EEPROM_byte ?s (8 * int (Suc i) + 7) = slot_flag (eeprom s) (Suc i)"
    using EEPROM_byte_flag[OF L si refl] by simp
  have fl: "slot_flag (eeprom s) (Suc i) =
      (if Suc i < length rs then MODEM_RECORD_COMPLETE else MODEM_RECORD_IN_PROGRESS)"
  proof (cases "Suc i < length rs")
    case True
    then show ?thesis using lg by (simp add: logged_def)
  next
    case False
    with i have "Suc i = length rs" by simp
    then show ?thesis using lg si by (auto simp: logged_def)
  qed
  show ?thesis
    unfolding getNextCompletedRecord_eq no by7 fl
    by (simp add: flag_consts)
qed

lemma logged_visits:
  assumes lg: "logged rs N s" and k: "length rs < N" and c: "count0 \<le> int N"
  shows "i < length rs \<Longrightarrow>
    oldest_then_next count0 i s =
      (8 * int i, s\<lparr>modemRecordIndex := 8 * i, gets := gets s + 1 + N + 2 * i\<rparr>)"
proof (induction i)
  case 0
  then show ?case using logged_oldest[OF lg _ k c] by simp
next
  case (Suc i)
  then have g: "oldest_then_next count0 i s =
      (8 * int i, s\<lparr>modemRecordIndex := 8 * i, gets := gets s + 1 + N + 2 * i\<rparr>)"
    by simp
  have i: "i < length rs" using Suc.prems by simp
  show ?case
    using Suc.prems by (simp add: g logged_next[OF lg k i])
qed

lemma logged_visits_end:
  assumes lg: "logged rs N s" and k0: "0 < length rs" and k: "length rs < N"
    and c: "count0 \<le> int N"
  shows "fst (oldest_then_next count0 (length rs) s) = - 1"
    and "fst (oldest_then_next count0 (Suc (length rs)) s) = - 1"
proof -
  obtain i where i: "length rs = Suc i" using k0 by (cases "length rs") auto
  then have il: "i < length rs" by simp
  define g where "g = gets s + 1 + N + 2 * i"
  have g: "oldest_then_next count0 i s = (8 * int i, s\<lparr>modemRecordIndex := 8 * i, gets := g\<rparr>)"
    unfolding g_def by (rule logged_visits[OF lg k c il])
  have e1: "oldest_then_next count0 (Suc i) s = (- 1, s\<lparr>modemRecordIndex := 8 * i, gets := g + 1\<rparr>)"
    using i by (simp add: g logged_next[OF lg k il])
  have e2: "oldest_then_next count0 (Suc (Suc i)) s = (- 1, s\<lparr>modemRecordIndex := 8 * i, gets := g + 1 + 1\<rparr>)"
    using i
    by (simp only: oldest_then_next.simps(2)[of count0 "Suc i"] e1 snd_conv logged_next[OF lg k il])
       simp
  show "fst (oldest_then_next count0 (length rs) s) = - 1" using e1 i by simp
  show "fst (oldest_then_next count0 (Suc (length rs)) s) = - 1" using e2 i by simp
qed

text \<open>
  From a blank ring of \<open>N\<close> slots, after \<open>k\<close> calls of \<^verbatim>\<open>completeLogEntry\<close> with
  \<open>0 < k < N\<close>, each with a record loaded by \<^verbatim>\<open>convertToEEPROMBlock\<close>, exactly the
  slots 0 to \<open>k - 1\<close> are complete. When the uninitialised \<^verbatim>\<open>count\<close> of
  \<^verbatim>\<open>getOldestCompletedRecord\<close> holds at most \<open>N\<close>, that method returns offset 0, the
  \<open>i\<close>-th call of \<^verbatim>\<open>getNextCompletedRecord\<close> after it returns offset \<open>8 * i\<close> for
  \<open>i < k\<close>, the record read at the cursor after each of these calls is the one logged
  by call \<open>i + 1\<close>, and the next two calls of \<^verbatim>\<open>getNextCompletedRecord\<close> return -1.
  When \<^verbatim>\<open>count\<close> holds more than \<open>N\<close>, \<^verbatim>\<open>getOldestCompletedRecord\<close> returns -1.
\<close>

lemma oldest_then_next_in_creation_order:
  assumes blank: "eeprom s0 = replicate (8 * N) MODEM_RECORD_UNUSED"
    and ne: "rs \<noteq> []" and k: "length rs < N"
    and s: "s = completeLogEntry_calls (map Some rs) s0"
  shows "slots_with MODEM_RECORD_COMPLETE (eeprom s) = [0..<length rs]"
    and "count0 \<le> int N \<Longrightarrow> i < length rs \<Longrightarrow>
           fst (oldest_then_next count0 i s) = 8 * int i \<and>
           record_at_cursor (snd (oldest_then_next count0 i s)) =
             (secsSince1900 (rs ! i), downMins (rs ! i))"
    and "count0 \<le> int N \<Longrightarrow> fst (oldest_then_next count0 (length rs) s) = - 1"
    and "count0 \<le> int N \<Longrightarrow> fst (oldest_then_next count0 (Suc (length rs)) s) = - 1"
    and "int N < count0 \<Longrightarrow> fst (getOldestCompletedRecord count0 s) = - 1"
proof -
  have lg: "logged rs N s"
    using logged_calls[OF logged_blank[OF blank], of rs] k s by simp
  from ne have k0: "0 < length rs" by simp
  show "slots_with MODEM_RECORD_COMPLETE (eeprom s) = [0..<length rs]"
    by (rule logged_slots_with_complete[OF lg k])
  show "fst (oldest_then_next count0 i s) = 8 * int i \<and>
        record_at_cursor (snd (oldest_then_next count0 i s)) =
          (secsSince1900 (rs ! i), downMins (rs ! i))"
    if "count0 \<le> int N" "i < length rs"
  proof -
    have "record_at_cursor (s\<lparr>modemRecordIndex := 8 * i\<rparr>) =
            (secsSince1900 (rs ! i), downMins (rs ! i))"
      using lg that(2) by (simp add: logged_def)
    then show ?thesis by (simp add: logged_visits[OF lg k that])
  qed
  show "fst (oldest_then_next count0 (length rs) s) = - 1" if "count0 \<le> int N"
    by (rule logged_visits_end(1)[OF lg k0 k that])
  show "fst (oldest_then_next count0 (Suc (length rs)) s) = - 1" if "count0 \<le> int N"
    by (rule logged_visits_end(2)[OF lg k0 k that])
  show "fst (getOldestCompletedRecord count0 s) = - 1" if "int N < count0"
    by (rule logged_oldest_fails[OF lg k that])
qed

text \<open>
  C2. The application logs A and then B on a blank ring of four slots: slots 0 and 1 are
  complete and slot 2 is in progress. A traversal should visit A and then B.
  \<^verbatim>\<open>getOldestCompletedRecord\<close> declares its local \<^verbatim>\<open>count\<close> without an initial
  value and reads it in the condition of its first loop and in the test after that loop,
  before the first assignment to it. When \<^verbatim>\<open>count\<close> holds 5 there (or any value above
  the number of slots), the method returns -1 and the traversal visits no record; when it
  holds 0, the method returns offset 0, the slot of A. \<^verbatim>\<open>getRecordInProgress\<close>, which
  has the same loop, starts its \<^verbatim>\<open>count\<close> at 0.
\<close>

theorem getOldestCompletedRecord_after_A_then_B:
  "eeprom (blank_store 32) = replicate 32 MODEM_RECORD_UNUSED \<and>
   length (eeprom A_then_B) div 8 = 4 \<and>
   slots_with MODEM_RECORD_COMPLETE (eeprom A_then_B) = [0, 1] \<and>
   slots_with MODEM_RECORD_IN_PROGRESS (eeprom A_then_B) = [2] \<and>
   fst (getOldestCompletedRecord 5 A_then_B) = - 1 \<and>
   fst (getOldestCompletedRecord 0 A_then_B) = 0"
  by (simp add: A_then_B_def eval_defs getOldestCompletedRecord_def
        getOldestCompletedRecord_loop1.simps getOldestCompletedRecord_loop2.simps
        cong: let_weak_cong)

subsection \<open>The flags byte is written last\<close>

lemma flag_last_append:
  "flag_last (xs @ ys) \<longleftrightarrow>
     flag_last xs \<and> flag_last ys \<and>
     (\<forall>w\<in>set xs. is_flag_write w \<longrightarrow>
        (\<forall>w'\<in>set ys. \<not> (is_payload_write w' \<and> same_slot w w')))"
  by (induction xs) (auto simp: list_all_iff)

lemma flag_last_no_flags:
  "\<forall>w\<in>set ws. \<not> is_flag_write w \<Longrightarrow> flag_last ws"
  by (induction ws) auto

lemma slot_bounds:
  fixes x :: nat
  shows "x < 8 * (x div 8) + 8"
proof -
  have "x = 8 * (x div 8) + x mod 8" by simp
  moreover have "x mod 8 < 8" by simp
  ultimately show ?thesis by linarith
qed

lemma flag_last_increasing:
  "sorted_wrt (<) (map fst ws) \<Longrightarrow> flag_last ws"
proof (induction ws)
  case Nil
  then show ?case by simp
next
  case (Cons w ws)
  have nopay: "\<not> (is_payload_write w' \<and> same_slot w w')" if "is_flag_write w" "w' \<in> set ws" for w'
  proof
    assume a: "is_payload_write w' \<and> same_slot w w'"
    from Cons.prems that(2) have lt: "fst w < fst w'" by auto
    from that(1) have m: "fst w mod 8 = 7"
      by (simp add: is_flag_write_def)
    have "fst w = 8 * (fst w div 8) + fst w mod 8" by simp
    with m have e: "fst w = 8 * (fst w div 8) + 7" by simp
    from a have "fst w' div 8 = fst w div 8" by (simp add: same_slot_def)
    with slot_bounds[of "fst w'"] have "fst w' < 8 * (fst w div 8) + 8" by simp
    with e lt show False by linarith
  qed
  have tl: "flag_last ws" using Cons by simp
  show ?case
    unfolding flag_last.simps list_all_iff using nopay tl by blast
qed

lemma flag_last_slot_writes: "flag_last (slot_writes a blk d2 d1 fl)"
  by (rule flag_last_increasing) (simp add: slot_writes_def)

lemma slot_writes_slot:
  assumes "w \<in> set (slot_writes (8 * j) blk d2 d1 fl)"
  shows "fst w div 8 = j"
proof -
  from assms obtain r where "fst w = 8 * j + r" "r < 8"
    by (auto simp: slot_writes_def)
  then show ?thesis by simp
qed

lemma set_written: "set (written ws mem) \<subseteq> set ws"
proof (induction ws arbitrary: mem)
  case Nil
  then show ?case by simp
next
  case (Cons w ws)
  obtain a v where w: "w = (a, v)" by (cases w)
  show ?case using Cons[of "mem[a := v]"] by (auto simp: w)
qed

lemma flag_last_written: "flag_last ws \<Longrightarrow> flag_last (written ws mem)"
proof (induction ws arbitrary: mem)
  case Nil
  then show ?case by simp
next
  case (Cons w ws)
  obtain a v where w: "w = (a, v)" by (cases w)
  have tl: "flag_last (written ws (mem[a := v]))" using Cons by simp
  have hd: "list_all (\<lambda>w'. \<not> (is_payload_write w' \<and> same_slot w w')) (written ws (mem[a := v]))"
    if "is_flag_write w"
    using that Cons.prems set_written[of ws "mem[a := v]"] by (auto simp: list_all_iff)
  show ?case using tl hd by (auto simp: w)
qed

lemma issued_completeLogEntry:
  assumes "length (eeprom s) = 8 * N" "0 < N"
  shows "issued completeLogEntry s =
     slot_writes (8 * in_progress_slot (eeprom s)) (EEPROMBlock s) (downMins2 (EEPROMBlock s))
        (downMins1 (EEPROMBlock s)) MODEM_RECORD_COMPLETE @
     slot_writes (8 * (Suc (in_progress_slot (eeprom s)) mod N)) (EEPROMBlock s) 0 0
        MODEM_RECORD_IN_PROGRESS"
  by (simp add: issued_def completeLogEntry_eq[OF assms refl refl])

lemma issued_setEEPROMUptimeStats:
  assumes "length (eeprom s) = 8 * N" "0 < N"
  shows "issued setEEPROMUptimeStats s =
     slot_writes (8 * in_progress_slot (eeprom s)) (EEPROMBlock s) (downMins2 (EEPROMBlock s))
        (downMins1 (EEPROMBlock s)) MODEM_RECORD_IN_PROGRESS"
  by (simp add: issued_def setEEPROMUptimeStats_eq[OF assms refl refl])

lemma issued_clearLog:
  "issued clearLog s =
     map (\<lambda>a. (a, MODEM_RECORD_UNUSED)) [0..<length (eeprom s)] @
     slot_writes (modemRecordIndex s) (EEPROMBlock s) (downMins2 (EEPROMBlock s))
        (downMins1 (EEPROMBlock s)) MODEM_RECORD_IN_PROGRESS"
  by (simp add: issued_def clearLog_eq[OF refl refl refl])

text \<open>
  C3. In the writes of a single call to \<^verbatim>\<open>setEEPROMUptimeStats\<close>,
  \<^verbatim>\<open>clearLog\<close> or \<^verbatim>\<open>completeLogEntry\<close>, every write of COMPLETE or
  IN_PROGRESS to the flags byte of a slot comes after all the writes of that call to
  bytes 0 to 5 of that slot. This holds of the \<^verbatim>\<open>EEPROM.update\<close> calls the method
  issues and of the writes that reach the device. The EEPROM length is a positive
  multiple of 8; for \<^verbatim>\<open>completeLogEntry\<close>, which seals one slot and then opens the
  next one, the ring has at least two slots, as it has on the Uno (128 slots).
\<close>

theorem flags_are_written_last:
  assumes "ring_ok (eeprom s)"
  shows "flag_last (issued setEEPROMUptimeStats s) \<and>
         flag_last (written (issued setEEPROMUptimeStats s) (eeprom s)) \<and>
         flag_last (issued clearLog s) \<and>
         flag_last (written (issued clearLog s) (eeprom s)) \<and>
         (16 \<le> length (eeprom s) \<longrightarrow>
            flag_last (issued completeLogEntry s) \<and>
            flag_last (written (issued completeLogEntry s) (eeprom s)))"
proof -
  from assms obtain N where L: "length (eeprom s) = 8 * N" and N: "0 < N"
    using ring_okD by blast
  have set: "flag_last (issued setEEPROMUptimeStats s)"
    unfolding issued_setEEPROMUptimeStats[OF L N] by (rule flag_last_slot_writes)
  have "\<forall>w\<in>set (map (\<lambda>a. (a, MODEM_RECORD_UNUSED)) [0..<length (eeprom s)]). \<not> is_flag_write w"
    by (auto simp: is_flag_write_def flag_consts)
  then have clear: "flag_last (issued clearLog s)"
    unfolding issued_clearLog flag_last_append
    using flag_last_slot_writes flag_last_no_flags by blast
  have complete: "flag_last (issued completeLogEntry s)" if "16 \<le> length (eeprom s)"
  proof -
    let ?ja = "in_progress_slot (eeprom s)"
    from that L have "1 < N" by simp
    have ne: "Suc ?ja mod N \<noteq> ?ja"
    proof (cases "Suc ?ja = N")
      case True
      then show ?thesis using \<open>1 < N\<close> by auto
    next
      case False
      then have "Suc ?ja < N" using in_progress_slot_less[OF L N] by simp
      then show ?thesis by simp
    qed
    have "\<not> same_slot w w'"
      if "w \<in> set (slot_writes (8 * ?ja) (EEPROMBlock s) (downMins2 (EEPROMBlock s))
             (downMins1 (EEPROMBlock s)) MODEM_RECORD_COMPLETE)"
        "w' \<in> set (slot_writes (8 * (Suc ?ja mod N)) (EEPROMBlock s) 0 0 MODEM_RECORD_IN_PROGRESS)"
      for w w'
      using slot_writes_slot[OF that(1)] slot_writes_slot[OF that(2)] ne
      by (simp add: same_slot_def)
    then show ?thesis
      unfolding issued_completeLogEntry[OF L N] flag_last_append
      using flag_last_slot_writes by blast
  qed
  from set clear complete flag_last_written show ?thesis by blast
qed

theorem flags_are_written_last_witness:
  "ring_ok (eeprom (blank_store 16)) \<and> 16 \<le> length (eeprom (blank_store 16)) \<and>
   flag_last (issued setEEPROMUptimeStats (blank_store 16)) \<and>
   flag_last (written (issued setEEPROMUptimeStats (blank_store 16)) (eeprom (blank_store 16))) \<and>
   flag_last (issued clearLog (blank_store 16)) \<and>
   flag_last (written (issued clearLog (blank_store 16)) (eeprom (blank_store 16))) \<and>
   flag_last (issued completeLogEntry (blank_store 16)) \<and>
   flag_last (written (issued completeLogEntry (blank_store 16)) (eeprom (blank_store 16)))"
proof -
  have h1: "ring_ok (eeprom (blank_store 16))"
    by (simp add: eval_defs)
  have h2: "16 \<le> length (eeprom (blank_store 16))"
    by (simp add: eval_defs)
  show ?thesis
    using h1 h2 flags_are_written_last[OF h1] by blast
qed

text \<open>
  On a ring of one slot the slot after slot 0 is slot 0 itself, so
  \<^verbatim>\<open>completeLogEntry\<close> seals slot 0 and then opens the same slot again: its second
  pass writes bytes 0 to 5 after the COMPLETE flag of its first pass.
\<close>

lemma completeLogEntry_on_one_slot:
  "issued completeLogEntry (blank_store 8) =
     [(0, 0), (1, 0), (2, 0), (3, 0), (4, 0), (5, 0), (7, MODEM_RECORD_COMPLETE),
      (0, 0), (1, 0), (2, 0), (3, 0), (4, 0), (5, 0), (7, MODEM_RECORD_IN_PROGRESS)]"
  by (simp add: issued_def eval_defs cong: let_weak_cong)

end
